theory Spec2Isabelle
  imports Main
begin

text \<open>
  A model of the task execution orchestrator of Ralphy
  (\<open>cli/src/execution/model-fallback.ts\<close> and the sequential executor that the same
  source file carries): the manager that switches between a primary and a fallback
  model, and the loop of \<open>runSequential\<close> with its retry, deferral and abort policy.
\<close>

section \<open>JavaScript strings and the regular expressions used by the fallback manager\<close>

text \<open>
  A JavaScript string is a sequence of UTF-16 code units; it is modelled as a list of
  natural numbers. A string is truthy exactly when it is not empty.
\<close>

type_synonym jsstring = "nat list"

definition js :: "string \<Rightarrow> jsstring" where
  "js s = map of_char s"

definition truthy :: "jsstring \<Rightarrow> bool" where
  "truthy s = (s \<noteq> [])"

text \<open>
  The patterns of \<open>isRateLimitError\<close> use two constructs only: literal characters and
  \<open>.*\<close>. With the \<open>i\<close> flag (and no \<open>u\<close> flag) two code units match when their
  canonical forms agree; a code unit of 128 or more is never canonicalised to one below
  128, so against the ASCII literals of these patterns only the letters a-z and A-Z
  are identified. The dot matches every code unit that is not a line terminator.
\<close>

datatype atom = Lit nat | DotStar

definition canonicalize :: "bool \<Rightarrow> nat \<Rightarrow> nat" where
  "canonicalize ignoreCase c = (if ignoreCase \<and> 97 \<le> c \<and> c \<le> 122 then c - 32 else c)"

definition lineTerminator :: "nat \<Rightarrow> bool" where
  "lineTerminator c = (c = 10 \<or> c = 13 \<or> c = 8232 \<or> c = 8233)"

fun matchesAt :: "bool \<Rightarrow> atom list \<Rightarrow> jsstring \<Rightarrow> bool" where
  "matchesAt i [] s = True"
| "matchesAt i (Lit c # p) [] = False"
| "matchesAt i (Lit c # p) (x # s) = (canonicalize i c = canonicalize i x \<and> matchesAt i p s)"
| "matchesAt i (DotStar # p) [] = matchesAt i p []"
| "matchesAt i (DotStar # p) (x # s) =
     ((\<not> lineTerminator x \<and> matchesAt i (DotStar # p) s) \<or> matchesAt i p (x # s))"

text \<open>\<open>RegExp.prototype.test\<close> of a pattern without anchors: a match may start anywhere.\<close>

fun regexTest :: "bool \<Rightarrow> atom list \<Rightarrow> jsstring \<Rightarrow> bool" where
  "regexTest i p [] = matchesAt i p []"
| "regexTest i p (x # s) = (matchesAt i p (x # s) \<or> regexTest i p s)"

definition lit :: "string \<Rightarrow> atom list" where
  "lit s = map (\<lambda>c. Lit (of_char c)) s"

text \<open>The nine patterns of \<open>isRateLimitError\<close>, each with its \<open>i\<close> flag, in source order.\<close>

definition rateLimitPatterns :: "(bool \<times> atom list) list" where
  "rateLimitPatterns =
     [(True, lit ''rate limit''),
      (True, lit ''too many requests''),
      (False, lit ''429''),
      (True, lit ''quota exceeded''),
      (True, lit ''overloaded''),
      (True, lit ''capacity''),
      (True, lit ''temporarily unavailable''),
      (True, lit ''resource exhausted''),
      (True, lit ''api_error'' @ DotStar # lit ''overloaded'')]"

definition isRateLimitError :: "jsstring \<Rightarrow> bool" where
  "isRateLimitError error = list_ex (\<lambda>(i, p). regexTest i p error) rateLimitPatterns"

text \<open>
  The pattern set as the specification lists it: eight literals, all matched without
  regard to case except \<open>429\<close>.
\<close>

definition specRateLimitPatterns :: "(bool \<times> atom list) list" where
  "specRateLimitPatterns =
     [(True, lit ''rate limit''),
      (True, lit ''too many requests''),
      (False, lit ''429''),
      (True, lit ''quota exceeded''),
      (True, lit ''overloaded''),
      (True, lit ''capacity''),
      (True, lit ''temporarily unavailable''),
      (True, lit ''resource exhausted'')]"

definition specIsRateLimitSignal :: "jsstring \<Rightarrow> bool" where
  "specIsRateLimitSignal error = list_ex (\<lambda>(i, p). regexTest i p error) specRateLimitPatterns"

section \<open>ModelFallbackManager\<close>

record ModelConfig =
  primary :: jsstring
  fallback :: jsstring
  retryInterval :: int

record FallbackState =
  inFallback :: bool
  fallbackStartTime :: "int option"
  lastRateLimitTime :: "int option"
  rateLimitCount :: nat

record HandleErrorResult =
  shouldRetry :: bool
  newModel :: "jsstring option"

definition initialState :: FallbackState where
  "initialState =
     \<lparr>inFallback = False, fallbackStartTime = None, lastRateLimitTime = None, rateLimitCount = 0\<rparr>"

definition resetTorimary :: "FallbackState \<Rightarrow> FallbackState" where
  "resetTorimary s = s\<lparr>inFallback := False, fallbackStartTime := None, rateLimitCount := 0\<rparr>"

text \<open>
  \<open>getCurrentModel\<close>; \<open>now\<close> is the reading of \<open>Date.now()\<close>. The test
  \<open>if (this.state.fallbackStartTime)\<close> is a truthiness test: it fails for \<open>null\<close>
  and for the number 0.
\<close>

definition getCurrentModel :: "ModelConfig \<Rightarrow> int \<Rightarrow> FallbackState \<Rightarrow> jsstring \<times> FallbackState" where
  "getCurrentModel cfg now s =
     (if \<not> inFallback s then (primary cfg, s)
      else case fallbackStartTime s of
             None \<Rightarrow> (fallback cfg, s)
           | Some t \<Rightarrow>
               if t = 0 then (fallback cfg, s)
               else if retryInterval cfg \<le> now - t then (primary cfg, resetTorimary s)
               else (fallback cfg, s))"

text \<open>
  \<open>handleError\<close>; \<open>now1\<close> and \<open>now2\<close> are the readings of its two calls of
  \<open>Date.now()\<close>, the second made only on the switch to the fallback model.
\<close>

definition handleError ::
  "ModelConfig \<Rightarrow> int \<Rightarrow> int \<Rightarrow> jsstring \<Rightarrow> FallbackState \<Rightarrow> HandleErrorResult \<times> FallbackState" where
  "handleError cfg now1 now2 error s =
     (if \<not> isRateLimitError error then (\<lparr>shouldRetry = False, newModel = None\<rparr>, s)
      else
        let s1 = s\<lparr>rateLimitCount := rateLimitCount s + 1, lastRateLimitTime := Some now1\<rparr>
        in if \<not> inFallback s1
           then (\<lparr>shouldRetry = True, newModel = Some (fallback cfg)\<rparr>,
                 s1\<lparr>inFallback := True, fallbackStartTime := Some now2\<rparr>)
           else (\<lparr>shouldRetry = False, newModel = None\<rparr>, s1))"

definition recordSuccess :: "ModelConfig \<Rightarrow> jsstring \<Rightarrow> FallbackState \<Rightarrow> FallbackState" where
  "recordSuccess cfg model s =
     (let s1 = (if model = primary cfg \<and> inFallback s then resetTorimary s else s)
      in s1\<lparr>rateLimitCount := 0\<rparr>)"

text \<open>Sequences of calls of the public operations, each with the clock readings it sees.\<close>

datatype managerCall =
  GetCurrentModel int
| HandleError jsstring int int
| RecordSuccess jsstring

fun applyCall :: "ModelConfig \<Rightarrow> FallbackState \<Rightarrow> managerCall \<Rightarrow> FallbackState" where
  "applyCall cfg s (GetCurrentModel now) = snd (getCurrentModel cfg now s)"
| "applyCall cfg s (HandleError error now1 now2) = snd (handleError cfg now1 now2 error s)"
| "applyCall cfg s (RecordSuccess model) = recordSuccess cfg model s"

definition applyCalls :: "ModelConfig \<Rightarrow> managerCall list \<Rightarrow> FallbackState \<Rightarrow> FallbackState" where
  "applyCalls cfg calls s = foldl (applyCall cfg) s calls"

fun clockAfterEpoch :: "managerCall \<Rightarrow> bool" where
  "clockAfterEpoch (GetCurrentModel now) = (0 < now)"
| "clockAfterEpoch (HandleError error now1 now2) = (0 < now1 \<and> 0 < now2)"
| "clockAfterEpoch (RecordSuccess model) = True"

text \<open>The number of switches from the primary to the fallback model over a sequence of errors.\<close>

fun fallbackTransitions :: "ModelConfig \<Rightarrow> (jsstring \<times> int \<times> int) list \<Rightarrow> FallbackState \<Rightarrow> nat" where
  "fallbackTransitions cfg [] s = 0"
| "fallbackTransitions cfg ((error, now1, now2) # rest) s =
     (let s' = snd (handleError cfg now1 now2 error s)
      in (if \<not> inFallback s \<and> inFallback s' then 1 else 0) + fallbackTransitions cfg rest s')"

definition startTimeInvariant :: "FallbackState \<Rightarrow> bool" where
  "startTimeInvariant s = (inFallback s \<longleftrightarrow> fallbackStartTime s \<noteq> None)"

text \<open>A start time that is set was read from a clock that is past the epoch.\<close>

definition stampAfterEpoch :: "FallbackState \<Rightarrow> bool" where
  "stampAfterEpoch s = (\<forall>t. fallbackStartTime s = Some t \<longrightarrow> 0 < t)"

text \<open>A state in Fallback, for concrete instances.\<close>

definition fallbackExample :: FallbackState where
  "fallbackExample =
     \<lparr>inFallback = True, fallbackStartTime = Some 1001, lastRateLimitTime = Some 1000, rateLimitCount = 1\<rparr>"


text \<open>
  \<open>DEFAULT_MODEL_CONFIG\<close> and the constructor of the manager as \<open>runSequential\<close> calls
  it (without a custom configuration): an engine name without an entry gets the
  configuration of \<open>opencode\<close>.
\<close>

definition opencodeConfig :: ModelConfig where
  "opencodeConfig =
     \<lparr>primary = js ''anthropic/claude-opus-4-20250514'',
      fallback = js ''google/gemini-2.5-pro-preview-05-06'',
      retryInterval = 5 * 60 * 1000\<rparr>"

definition claudeConfig :: ModelConfig where
  "claudeConfig =
     \<lparr>primary = js ''claude-opus-4-20250514'',
      fallback = js ''claude-sonnet-4-20250514'',
      retryInterval = 5 * 60 * 1000\<rparr>"

definition DEFAULT_MODEL_CONFIG :: "jsstring \<Rightarrow> ModelConfig option" where
  "DEFAULT_MODEL_CONFIG engine =
     (if engine = js ''opencode'' then Some opencodeConfig
      else if engine = js ''claude'' then Some claudeConfig
      else None)"

definition createModelFallbackManager :: "jsstring \<Rightarrow> ModelConfig" where
  "createModelFallbackManager engine =
     (case DEFAULT_MODEL_CONFIG engine of Some c \<Rightarrow> c | None \<Rightarrow> opencodeConfig)"

section \<open>The sequential executor\<close>

subsection \<open>Data\<close>

record Task =
  task_id :: jsstring
  title :: jsstring
  body :: "jsstring option"

record AIResult =
  success :: bool
  response :: jsstring
  inputTokens :: int
  outputTokens :: int
  cost :: "jsstring option"
  error :: "jsstring option"

record ExecutionResult =
  tasksCompleted :: nat
  tasksFailed :: nat
  totalInputTokens :: int
  totalOutputTokens :: int

text \<open>
  The options that decide the control flow of \<open>runSequential\<close>. The engine and the task
  source are part of the environment below; the options that only shape the prompt text
  (\<open>skipTests\<close>, \<open>skipLint\<close>, \<open>autoCommit\<close>, \<open>browserEnabled\<close>), the display
  (\<open>activeSettings\<close>, \<open>verbose\<close>, \<open>draftPr\<close>) or the engine's command line are left out.
\<close>

record ExecutionOptions =
  dryRun :: bool
  maxIterations :: int
  maxRetries :: int
  branchPerTask :: bool
  baseBranch :: jsstring
  createPr :: bool
  modelOverride :: "jsstring option"
  syncIssue :: "int option"
  prdFile :: "jsstring option"

definition truthyOpt :: "jsstring option \<Rightarrow> bool" where
  "truthyOpt x = (case x of None \<Rightarrow> False | Some s \<Rightarrow> truthy s)"

definition truthyNum :: "int option \<Rightarrow> bool" where
  "truthyNum x = (case x of None \<Rightarrow> False | Some n \<Rightarrow> n \<noteq> 0)"

subsection \<open>Calls to the collaborators\<close>

text \<open>
  Every call that \<open>runSequential\<close> makes to a collaborator is recorded, in order, with
  what the collaborator answered: a thrown error is \<open>Inl\<close> of its message (or \<open>Some\<close>
  of it where the call returns nothing of interest). Calls to the logger, the spinner
  and the notifier are not recorded.
\<close>

datatype event =
    ChatQueue "jsstring list"
  | GetNextTask "Task option"
  | CreateTaskBranch Task "jsstring + jsstring"
  | Manager managerCall
  | EngineRun Task jsstring "jsstring + AIResult"
  | MarkComplete jsstring "jsstring option"
  | SyncPrdToIssue "jsstring option"
  | RecordDeferredTask jsstring nat
  | ClearDeferredTask jsstring
  | CreatePullRequest jsstring "jsstring option"
  | PromptForUserInput "jsstring option"
  | UserMessageRun jsstring "jsstring + AIResult"
  | ReturnToBaseBranch
  | CleanupInputListener

text \<open>
  The collaborators are deterministic in the history of calls: each answer is a function
  of the events so far. \<open>processChatQueue\<close> gives the feedback captured by one drain of
  the chat queue, \<open>streamFeedback\<close> the feedback captured by the chat polling that runs
  during a streaming invocation, \<open>dateNow tr k\<close> the \<open>k\<close>-th reading of the clock after
  the history \<open>tr\<close>. \<open>isRetryableError\<close> and \<open>isFatalError\<close> are the classifiers of
  \<open>execution/retry.ts\<close>, which is not among the sources; they are parameters.
\<close>

record environment =
  isTTY :: bool
  engineNameLowerCase :: jsstring
  executeStreaming :: bool
  processChatQueue :: "event list \<Rightarrow> jsstring list"
  streamFeedback :: "event list \<Rightarrow> jsstring list"
  getNextTask :: "event list \<Rightarrow> Task option"
  createTaskBranch :: "event list \<Rightarrow> Task \<Rightarrow> jsstring + jsstring"
  dateNow :: "event list \<Rightarrow> nat \<Rightarrow> int"
  engineExecute :: "event list \<Rightarrow> Task \<Rightarrow> jsstring \<Rightarrow> jsstring + AIResult"
  markComplete :: "event list \<Rightarrow> jsstring \<Rightarrow> jsstring option"
  syncPrdToIssue :: "event list \<Rightarrow> jsstring option"
  createPullRequest :: "event list \<Rightarrow> jsstring \<Rightarrow> jsstring option"
  promptForUserInput :: "event list \<Rightarrow> jsstring option"
  userExecute :: "event list \<Rightarrow> jsstring \<Rightarrow> jsstring + AIResult"
  isRetryableError :: "jsstring \<Rightarrow> bool"
  isFatalError :: "jsstring \<Rightarrow> bool"
  deferredStore :: "jsstring \<rightharpoonup> nat"

text \<open>The local variables of \<open>runSequential\<close>, the manager's state and the history.\<close>

record loopState =
  trace :: "event list"
  fallbackState :: FallbackState
  result :: ExecutionResult
  iteration :: int
  abortDueToRetryableFailure :: bool
  collectedFeedback :: "jsstring list"
  deferred :: "jsstring \<rightharpoonup> nat"

definition logEvent :: "event \<Rightarrow> loopState \<Rightarrow> loopState" where
  "logEvent e st = st\<lparr>trace := trace st @ [e]\<rparr>"

subsection \<open>The deferred-task tracker and the retry wrapper\<close>

text \<open>
  Modelled from the spec: \<open>recordDeferredTask\<close> and \<open>clearDeferredTask\<close> of
  \<open>execution/deferred.ts\<close> are not among the sources. By the specification's data model
  a deferred-task record holds a deferral counter for a task; it is created on the
  first retryable failure of the task, incremented on each later one, and cleared on
  success or when \<open>maxRetries\<close> is reached. \<open>recordDeferredTask\<close> returns the counter
  after the increment. The task source's type and the PRD file, which are part of the
  key, are fixed during a run.
\<close>

definition recordDeferredTask :: "Task \<Rightarrow> loopState \<Rightarrow> nat \<times> loopState" where
  "recordDeferredTask task st =
     (let deferrals = (case deferred st (task_id task) of None \<Rightarrow> 1 | Some c \<Rightarrow> c + 1)
      in (deferrals,
          logEvent (RecordDeferredTask (task_id task) deferrals)
            (st\<lparr>deferred := (deferred st)(task_id task \<mapsto> deferrals)\<rparr>)))"

definition clearDeferredTask :: "Task \<Rightarrow> loopState \<Rightarrow> loopState" where
  "clearDeferredTask task st =
     logEvent (ClearDeferredTask (task_id task))
       (st\<lparr>deferred := (deferred st)(task_id task := None)\<rparr>)"

text \<open>
  Modelled from the spec: \<open>withRetry\<close> of \<open>execution/retry.ts\<close> is not among the sources.
  By the specification the engine invocation is wrapped by a retry with \<open>maxRetries\<close>
  attempts: an attempt that returns ends the retry with its value; an attempt that
  throws is followed, while attempts are left, by \<open>onRetry\<close> with the attempt's number
  and by a new attempt; when the last attempt throws, its error is thrown. With no
  attempt at all the function is never called and the retry itself throws. The delay
  between attempts is not modelled.
\<close>

fun retryLoop ::
  "nat \<Rightarrow> nat \<Rightarrow> ('s \<Rightarrow> (jsstring + 'a) \<times> 's) \<Rightarrow> (nat \<Rightarrow> 's \<Rightarrow> 's) \<Rightarrow> 's \<Rightarrow> (jsstring + 'a) \<times> 's" where
  "retryLoop attemptNo 0 fn retry st = (Inl (js ''All retry attempts failed''), st)"
| "retryLoop attemptNo (Suc remaining) fn retry st =
     (case fn st of
        (Inr v, st1) \<Rightarrow> (Inr v, st1)
      | (Inl e, st1) \<Rightarrow>
          if remaining = 0 then (Inl e, st1)
          else retryLoop (attemptNo + 1) remaining fn retry (retry attemptNo st1))"

definition withRetry ::
  "int \<Rightarrow> ('s \<Rightarrow> (jsstring + 'a) \<times> 's) \<Rightarrow> (nat \<Rightarrow> 's \<Rightarrow> 's) \<Rightarrow> 's \<Rightarrow> (jsstring + 'a) \<times> 's" where
  "withRetry retries fn retry st = retryLoop 1 (nat retries) fn retry st"

subsection \<open>The manager as \<open>runSequential\<close> uses it\<close>

definition managerGetCurrentModel ::
  "environment \<Rightarrow> ModelConfig \<Rightarrow> loopState \<Rightarrow> jsstring \<times> loopState" where
  "managerGetCurrentModel env cfg st =
     (let now = dateNow env (trace st) 0;
          r = getCurrentModel cfg now (fallbackState st)
      in (fst r, logEvent (Manager (GetCurrentModel now)) (st\<lparr>fallbackState := snd r\<rparr>)))"

definition managerHandleError ::
  "environment \<Rightarrow> ModelConfig \<Rightarrow> jsstring \<Rightarrow> loopState \<Rightarrow> HandleErrorResult \<times> loopState" where
  "managerHandleError env cfg err st =
     (let now1 = dateNow env (trace st) 0;
          now2 = dateNow env (trace st) 1;
          r = handleError cfg now1 now2 err (fallbackState st)
      in (fst r, logEvent (Manager (HandleError err now1 now2)) (st\<lparr>fallbackState := snd r\<rparr>)))"

definition managerRecordSuccess :: "ModelConfig \<Rightarrow> jsstring \<Rightarrow> loopState \<Rightarrow> loopState" where
  "managerRecordSuccess cfg model st =
     logEvent (Manager (RecordSuccess model))
       (st\<lparr>fallbackState := recordSuccess cfg model (fallbackState st)\<rparr>)"

text \<open>\<open>modelOverride || fallbackManager.getCurrentModel()\<close>\<close>

definition modelOrOverride ::
  "environment \<Rightarrow> ExecutionOptions \<Rightarrow> ModelConfig \<Rightarrow> loopState \<Rightarrow> jsstring \<times> loopState" where
  "modelOrOverride env opts cfg st =
     (case modelOverride opts of
        Some m \<Rightarrow> if truthy m then (m, st) else managerGetCurrentModel env cfg st
      | None \<Rightarrow> managerGetCurrentModel env cfg st)"

subsection \<open>One engine invocation: the function that \<open>runSequential\<close> passes to \<open>withRetry\<close>\<close>

text \<open>
  With a streaming engine the result of \<open>executeStreaming\<close> is returned as it is. Without
  one, a failed result with an error text goes to the manager's \<open>handleError\<close>, and the
  error is thrown (so that \<open>withRetry\<close> tries again) when the manager switched models
  or when the error is retryable.
\<close>

definition attempt ::
  "environment \<Rightarrow> ExecutionOptions \<Rightarrow> ModelConfig \<Rightarrow> Task \<Rightarrow> loopState
     \<Rightarrow> (jsstring + AIResult) \<times> loopState" where
  "attempt env opts cfg task st =
     (let m = modelOrOverride env opts cfg st;
          modelToUse = fst m;
          st1 = snd m;
          r = engineExecute env (trace st1) task modelToUse;
          st2 = logEvent (EngineRun task modelToUse r) st1
      in if executeStreaming env
         then (r, st2\<lparr>collectedFeedback := collectedFeedback st2 @ streamFeedback env (trace st2)\<rparr>)
         else
           case r of
             Inl e \<Rightarrow> (Inl e, st2)
           | Inr res \<Rightarrow>
               (case error res of
                  None \<Rightarrow> (Inr res, st2)
                | Some e \<Rightarrow>
                    if \<not> success res \<and> truthy e
                    then
                      let h = managerHandleError env cfg e st2
                      in if shouldRetry (fst h) \<and> truthyOpt (newModel (fst h)) then (Inl e, snd h)
                         else if isRetryableError env e then (Inl e, snd h)
                         else (Inr res, snd h)
                    else (Inr res, st2)))"

definition onRetry :: "environment \<Rightarrow> ModelConfig \<Rightarrow> nat \<Rightarrow> loopState \<Rightarrow> loopState" where
  "onRetry env cfg attemptNo st = snd (managerGetCurrentModel env cfg st)"

subsection \<open>The body of the loop\<close>

definition createBranch ::
  "environment \<Rightarrow> ExecutionOptions \<Rightarrow> Task \<Rightarrow> loopState \<Rightarrow> jsstring option \<times> loopState" where
  "createBranch env opts task st =
     (if branchPerTask opts \<and> truthy (baseBranch opts)
      then
        let r = createTaskBranch env (trace st) task;
            st1 = logEvent (CreateTaskBranch task r) st
        in (case r of Inr b \<Rightarrow> (Some b, st1) | Inl e \<Rightarrow> (None, st1))
      else (None, st))"

definition addTokens :: "AIResult \<Rightarrow> loopState \<Rightarrow> loopState" where
  "addTokens r st =
     st\<lparr>result := (result st)
          \<lparr>totalInputTokens := totalInputTokens (result st) + inputTokens r,
           totalOutputTokens := totalOutputTokens (result st) + outputTokens r\<rparr>\<rparr>"

definition completeTask :: "loopState \<Rightarrow> loopState" where
  "completeTask st = st\<lparr>result := (result st)\<lparr>tasksCompleted := tasksCompleted (result st) + 1\<rparr>\<rparr>"

definition failTask :: "loopState \<Rightarrow> loopState" where
  "failTask st = st\<lparr>result := (result st)\<lparr>tasksFailed := tasksFailed (result st) + 1\<rparr>\<rparr>"

text \<open>\<open>Array.prototype.join\<close> with a line feed as the separator.\<close>

fun joinLines :: "jsstring list \<Rightarrow> jsstring" where
  "joinLines [] = []"
| "joinLines [x] = x"
| "joinLines (x # y # ys) = x @ 10 # joinLines (y # ys)"

text \<open>
  The interactive step after a success: feedback collected from the chat, or else what the
  user types at the prompt, is sent to the engine; a successful answer adds its tokens.
  An error thrown by the engine here is caught on the spot.
\<close>

definition userMessage :: "environment \<Rightarrow> ExecutionOptions \<Rightarrow> loopState \<Rightarrow> loopState" where
  "userMessage env opts st =
     (if \<not> (isTTY env \<and> \<not> dryRun opts) then st
      else
        let i = (if collectedFeedback st \<noteq> []
                 then (Some (joinLines (collectedFeedback st)), st\<lparr>collectedFeedback := []\<rparr>)
                 else (promptForUserInput env (trace st),
                       logEvent (PromptForUserInput (promptForUserInput env (trace st))) st));
            st1 = snd i
        in case fst i of
             None \<Rightarrow> st1
           | Some u \<Rightarrow>
               if \<not> truthy u then st1
               else
                 let r = userExecute env (trace st1) u;
                     st2 = logEvent (UserMessageRun u r) st1
                 in (case r of
                       Inl e \<Rightarrow> st2
                     | Inr userResult \<Rightarrow> if success userResult then addTokens userResult st2 else st2))"

text \<open>The optional steps of a success: the sync of the PRD to an issue, and the pull request.\<close>

definition syncIssueStep ::
  "environment \<Rightarrow> ExecutionOptions \<Rightarrow> loopState \<Rightarrow> jsstring option \<times> loopState" where
  "syncIssueStep env opts st =
     (if truthyNum (syncIssue opts) \<and> truthyOpt (prdFile opts)
      then (syncPrdToIssue env (trace st), logEvent (SyncPrdToIssue (syncPrdToIssue env (trace st))) st)
      else (None, st))"

definition pullRequestStep ::
  "environment \<Rightarrow> ExecutionOptions \<Rightarrow> jsstring option \<Rightarrow> loopState \<Rightarrow> jsstring option \<times> loopState" where
  "pullRequestStep env opts branch st =
     (case branch of
        None \<Rightarrow> (None, st)
      | Some b \<Rightarrow>
          if createPr opts \<and> truthy b \<and> truthy (baseBranch opts)
          then (createPullRequest env (trace st) b,
                logEvent (CreatePullRequest b (createPullRequest env (trace st) b)) st)
          else (None, st))"

text \<open>
  The branch for \<open>aiResult.success\<close>. It is inside the \<open>try\<close> block: when marking the
  task, syncing the issue or creating the pull request throws, the result is \<open>Some\<close> of
  the error and the rest of the branch is skipped.
\<close>

definition onSuccess ::
  "environment \<Rightarrow> ExecutionOptions \<Rightarrow> Task \<Rightarrow> jsstring option \<Rightarrow> AIResult \<Rightarrow> loopState
     \<Rightarrow> jsstring option \<times> loopState" where
  "onSuccess env opts task branch aiResult st =
     (let st1 = addTokens aiResult st;
          m = markComplete env (trace st1) (task_id task);
          st2 = logEvent (MarkComplete (task_id task) m) st1
      in case m of
           Some e \<Rightarrow> (Some e, st2)
         | None \<Rightarrow>
             let s = syncIssueStep env opts (completeTask st2)
             in case fst s of
                  Some e \<Rightarrow> (Some e, snd s)
                | None \<Rightarrow>
                    let p = pullRequestStep env opts branch (clearDeferredTask task (snd s))
                    in case fst p of
                         Some e \<Rightarrow> (Some e, snd p)
                       | None \<Rightarrow> (None, userMessage env opts (snd p)))"

text \<open>
  The handling of a failure with message \<open>errMsg\<close>. The source has this sequence twice,
  once for a result that is not a success and once in the \<open>catch\<close> clause; the two
  copies make the same calls. The first component is \<open>True\<close> when \<open>runSequential\<close>
  returns on the spot.
\<close>

definition onFailure ::
  "environment \<Rightarrow> ExecutionOptions \<Rightarrow> Task \<Rightarrow> jsstring \<Rightarrow> loopState \<Rightarrow> bool \<times> loopState" where
  "onFailure env opts task errMsg st =
     (if isRetryableError env errMsg
      then
        let d = recordDeferredTask task st
        in if maxRetries opts \<le> int (fst d)
           then (False, clearDeferredTask task (failTask (snd d)))
           else (False, (failTask (snd d))\<lparr>abortDueToRetryableFailure := True\<rparr>)
      else if isFatalError env errMsg
      then (True, logEvent CleanupInputListener (failTask st))
      else (False, (clearDeferredTask task (failTask st))\<lparr>abortDueToRetryableFailure := True\<rparr>))"

text \<open>\<open>aiResult.error || "Unknown error"\<close>\<close>

definition errorOrUnknown :: "AIResult \<Rightarrow> jsstring" where
  "errorOrUnknown r =
     (case error r of
        None \<Rightarrow> js ''Unknown error''
      | Some e \<Rightarrow> if truthy e then e else js ''Unknown error'')"

text \<open>
  The engine invocation of one task, as far as the \<open>await\<close> of \<open>withRetry\<close>: the model is
  resolved once for the display, then the retried invocation runs.
\<close>

definition executeTask ::
  "environment \<Rightarrow> ExecutionOptions \<Rightarrow> ModelConfig \<Rightarrow> Task \<Rightarrow> loopState
     \<Rightarrow> (jsstring + AIResult) \<times> loopState" where
  "executeTask env opts cfg task st =
     withRetry (maxRetries opts) (attempt env opts cfg task) (onRetry env cfg)
       (snd (modelOrOverride env opts cfg st))"

text \<open>
  What follows the invocation: a result that is a success is recorded with the manager
  and goes through \<open>onSuccess\<close>, where a thrown error leads to the \<open>catch\<close> clause; every
  other outcome is a failure.
\<close>

definition afterExecute ::
  "environment \<Rightarrow> ExecutionOptions \<Rightarrow> ModelConfig \<Rightarrow> Task \<Rightarrow> jsstring option
     \<Rightarrow> (jsstring + AIResult) \<times> loopState \<Rightarrow> bool \<times> loopState" where
  "afterExecute env opts cfg task branch x =
     (case fst x of
        Inl e \<Rightarrow> onFailure env opts task e (snd x)
      | Inr aiResult \<Rightarrow>
          if success aiResult
          then
            let u = modelOrOverride env opts cfg (snd x);
                st1 = managerRecordSuccess cfg (fst u) (snd u);
                s = onSuccess env opts task branch aiResult st1
            in (case fst s of
                  Some e \<Rightarrow> onFailure env opts task e (snd s)
                | None \<Rightarrow> (False, snd s))
          else onFailure env opts task (errorOrUnknown aiResult) (snd x))"

definition runTask ::
  "environment \<Rightarrow> ExecutionOptions \<Rightarrow> ModelConfig \<Rightarrow> Task \<Rightarrow> loopState \<Rightarrow> bool \<times> loopState" where
  "runTask env opts cfg task st =
     (let b = createBranch env opts task (st\<lparr>iteration := iteration st + 1\<rparr>)
      in if dryRun opts then (False, snd b)
         else afterExecute env opts cfg task (fst b) (executeTask env opts cfg task (snd b)))"

definition returnToBase :: "ExecutionOptions \<Rightarrow> loopState \<Rightarrow> loopState" where
  "returnToBase opts st =
     (if branchPerTask opts \<and> truthy (baseBranch opts) then logEvent ReturnToBaseBranch st else st)"

definition drainChat :: "environment \<Rightarrow> loopState \<Rightarrow> loopState" where
  "drainChat env st =
     logEvent (ChatQueue (processChatQueue env (trace st)))
       (st\<lparr>collectedFeedback := collectedFeedback st @ processChatQueue env (trace st)\<rparr>)"

subsection \<open>The loop\<close>

text \<open>
  The loop of \<open>runSequential\<close> need not end (a dry run without an iteration limit asks
  the task source for ever), so it runs on fuel: the first component of the result is
  \<open>True\<close> when \<open>runSequential\<close> has returned, with the final state, and \<open>False\<close> when the
  fuel ran out, with the state reached so far.
\<close>

fun runLoop ::
  "nat \<Rightarrow> environment \<Rightarrow> ExecutionOptions \<Rightarrow> ModelConfig \<Rightarrow> loopState \<Rightarrow> bool \<times> loopState" where
  "runLoop 0 env opts cfg st = (False, st)"
| "runLoop (Suc fuel) env opts cfg st =
     (let st1 = drainChat env st
      in if 0 < maxIterations opts \<and> maxIterations opts \<le> iteration st1
         then (True, logEvent CleanupInputListener st1)
         else
           case getNextTask env (trace st1) of
             None \<Rightarrow> (True, logEvent CleanupInputListener (logEvent (GetNextTask None) st1))
           | Some task \<Rightarrow>
               let r = runTask env opts cfg task (logEvent (GetNextTask (Some task)) st1)
               in if fst r then r
                  else
                    let st2 = returnToBase opts (snd r)
                    in if abortDueToRetryableFailure st2
                       then (True, logEvent CleanupInputListener st2)
                       else runLoop fuel env opts cfg st2)"

definition initialLoopState :: "environment \<Rightarrow> loopState" where
  "initialLoopState env =
     \<lparr>trace = [], fallbackState = initialState,
      result = \<lparr>tasksCompleted = 0, tasksFailed = 0, totalInputTokens = 0, totalOutputTokens = 0\<rparr>,
      iteration = 0, abortDueToRetryableFailure = False, collectedFeedback = [],
      deferred = deferredStore env\<rparr>"

definition runSequential :: "environment \<Rightarrow> ExecutionOptions \<Rightarrow> nat \<Rightarrow> bool \<times> loopState" where
  "runSequential env opts fuel =
     runLoop fuel env opts (createModelFallbackManager (engineNameLowerCase env)) (initialLoopState env)"

subsection \<open>A task source over a backlog, and a concrete environment\<close>

text \<open>
  Modelled from the spec: the implementations of \<open>TaskSource\<close> are not among the
  sources. A task source over a backlog answers \<open>getNextTask\<close> with the first task of
  the backlog that has not been marked complete, and with \<open>null\<close> when there is none.
\<close>

definition backlogTaskSource :: "Task list \<Rightarrow> event list \<Rightarrow> Task option" where
  "backlogTaskSource tasks tr = find (\<lambda>t. MarkComplete (task_id t) None \<notin> set tr) tasks"

text \<open>
  An environment for concrete runs: a backlog, an engine without streaming that gives the
  same answer to every invocation, collaborators that never throw, nobody at the
  terminal. Its classifiers take a rate-limit signal for retryable and the text
  \<open>not authenticated\<close> for fatal.
\<close>

definition exampleEnv :: "Task list \<Rightarrow> (jsstring + AIResult) \<Rightarrow> environment" where
  "exampleEnv tasks answer =
     \<lparr>isTTY = False,
      engineNameLowerCase = js ''claude'',
      executeStreaming = False,
      processChatQueue = (\<lambda>tr. []),
      streamFeedback = (\<lambda>tr. []),
      getNextTask = backlogTaskSource tasks,
      createTaskBranch = (\<lambda>tr t. Inr (js ''ralphy/'' @ title t)),
      dateNow = (\<lambda>tr k. 1000 + int (length tr) + int k),
      engineExecute = (\<lambda>tr t m. answer),
      markComplete = (\<lambda>tr i. None),
      syncPrdToIssue = (\<lambda>tr. None),
      createPullRequest = (\<lambda>tr b. None),
      promptForUserInput = (\<lambda>tr. None),
      userExecute = (\<lambda>tr u. answer),
      isRetryableError = isRateLimitError,
      isFatalError = regexTest True (lit ''not authenticated''),
      deferredStore = Map.empty\<rparr>"

definition exampleOptions :: ExecutionOptions where
  "exampleOptions =
     \<lparr>dryRun = False, maxIterations = 0, maxRetries = 3, branchPerTask = True,
      baseBranch = js ''main'', createPr = False, modelOverride = None, syncIssue = None,
      prdFile = None\<rparr>"

definition task1 :: Task where
  "task1 = \<lparr>task_id = js ''1'', title = js ''login'', body = None\<rparr>"

definition task2 :: Task where
  "task2 = \<lparr>task_id = js ''2'', title = js ''logout'', body = None\<rparr>"

definition succeeded :: AIResult where
  "succeeded =
     \<lparr>success = True, response = js ''done'', inputTokens = 100, outputTokens = 50,
      cost = None, error = None\<rparr>"

definition failed :: "jsstring \<Rightarrow> AIResult" where
  "failed e =
     \<lparr>success = False, response = [], inputTokens = 0, outputTokens = 0, cost = None,
      error = Some e\<rparr>"

subsection \<open>Notions used to state the properties of the loop\<close>

text \<open>
  \<open>appends P st st'\<close>: the history of \<open>st'\<close> is the history of \<open>st\<close> followed by events
  that all satisfy \<open>P\<close>. \<open>quiet P st st'\<close>: moreover the totals, the iteration count, the
  abort flag and the deferred-task records are the same in both states.
\<close>

definition appends :: "(event \<Rightarrow> bool) \<Rightarrow> loopState \<Rightarrow> loopState \<Rightarrow> bool" where
  "appends P st st' = (\<exists>evs. trace st' = trace st @ evs \<and> list_all P evs)"

definition quiet :: "(event \<Rightarrow> bool) \<Rightarrow> loopState \<Rightarrow> loopState \<Rightarrow> bool" where
  "quiet P st st' =
     (appends P st st' \<and> result st' = result st \<and> iteration st' = iteration st \<and>
      abortDueToRetryableFailure st' = abortDueToRetryableFailure st \<and>
      deferred st' = deferred st)"

text \<open>The events that a state has beyond the history of an earlier state.\<close>

definition eventsSince :: "loopState \<Rightarrow> loopState \<Rightarrow> event list" where
  "eventsSince st st' = drop (length (trace st)) (trace st')"

fun isMarkComplete :: "event \<Rightarrow> bool" where
  "isMarkComplete (MarkComplete i thrown) = True"
| "isMarkComplete e = False"

fun isGetNextTask :: "event \<Rightarrow> bool" where
  "isGetNextTask (GetNextTask t) = True"
| "isGetNextTask e = False"


text \<open>
  The message of the failure in which an engine invocation ended, if it ended in one: the
  thrown error, or the error of a result that is not a success.
\<close>

definition failureMessage :: "jsstring + AIResult \<Rightarrow> jsstring option" where
  "failureMessage outcome =
     (case outcome of
        Inl e \<Rightarrow> Some e
      | Inr r \<Rightarrow> if success r then None else Some (errorOrUnknown r))"

text \<open>
  The state in which the body of the loop starts on a task fetched at the loop head \<open>st\<close>,
  and the outcome of the engine invocation of that iteration.
\<close>

definition fetched :: "environment \<Rightarrow> Task \<Rightarrow> loopState \<Rightarrow> loopState" where
  "fetched env task st = logEvent (GetNextTask (Some task)) (drainChat env st)"

definition invocation ::
  "environment \<Rightarrow> ExecutionOptions \<Rightarrow> ModelConfig \<Rightarrow> Task \<Rightarrow> loopState
     \<Rightarrow> (jsstring + AIResult) \<times> loopState" where
  "invocation env opts cfg task st =
     executeTask env opts cfg task
       (snd (createBranch env opts task (st\<lparr>iteration := iteration st + 1\<rparr>)))"

text \<open>
  The message with which the failure handling of an iteration is entered, if it is
  entered: the failure in which the engine invocation ended, or else the error thrown
  by a step of the success branch (\<open>markComplete\<close>, the issue sync, the pull request),
  which the \<open>catch\<close> clause receives.
\<close>

definition iterationFailure ::
  "environment \<Rightarrow> ExecutionOptions \<Rightarrow> ModelConfig \<Rightarrow> Task \<Rightarrow> loopState \<Rightarrow> jsstring option" where
  "iterationFailure env opts cfg task st =
     (let x = invocation env opts cfg task st
      in case fst x of
           Inl e \<Rightarrow> Some e
         | Inr r \<Rightarrow>
             if success r
             then
               let u = modelOrOverride env opts cfg (snd x)
               in fst (onSuccess env opts task
                         (fst (createBranch env opts task (st\<lparr>iteration := iteration st + 1\<rparr>))) r
                         (managerRecordSuccess cfg (fst u) (snd u)))
             else Some (errorOrUnknown r))"






definition fatalEnv :: environment where
  "fatalEnv = exampleEnv [task1, task2] (Inr (failed (js ''not authenticated'')))"

definition rateLimitedEnv :: environment where
  "rateLimitedEnv = exampleEnv [task1, task2] (Inr (failed (js ''HTTP 429'')))"



definition prFailsEnv :: environment where
  "prFailsEnv =
     (exampleEnv [task1, task2] (Inr succeeded))
       \<lparr>createPullRequest := (\<lambda>tr b. Some (js ''not authenticated''))\<rparr>"

definition prOptions :: ExecutionOptions where
  "prOptions = exampleOptions\<lparr>createPr := True\<rparr>"

section \<open>Properties of the rate-limit patterns\<close>

lemma matchesAt_append:
  "matchesAt i (p @ q) s \<Longrightarrow> \<exists>k. matchesAt i q (drop k s)"
proof (induction i p s rule: matchesAt.induct)
  case (1 i s)
  then have "matchesAt i q (drop 0 s)" by simp
  then show ?case by blast
next
  case (2 i c p)
  then show ?case by simp
next
  case (3 i c p x s)
  then obtain k where "matchesAt i q (drop k s)" by auto
  then have "matchesAt i q (drop (Suc k) (x # s))" by simp
  then show ?case by blast
next
  case (4 i p)
  then show ?case by simp
next
  case (5 i p x s)
  from "5.prems" have "matchesAt i ((DotStar # p) @ q) s \<or> matchesAt i (p @ q) (x # s)"
    by auto
  then show ?case
  proof
    assume "matchesAt i ((DotStar # p) @ q) s"
    then obtain k where "matchesAt i q (drop k s)" using "5.IH"(1) "5.prems" by auto
    then have "matchesAt i q (drop (Suc k) (x # s))" by simp
    then show ?thesis by blast
  next
    assume "matchesAt i (p @ q) (x # s)"
    then show ?thesis using "5.IH"(2) by blast
  qed
qed

lemma regexTest_iff: "regexTest i p s \<longleftrightarrow> (\<exists>k. matchesAt i p (drop k s))"
proof (induction s)
  case Nil
  then show ?case by simp
next
  case (Cons x s)
  have "(\<exists>k. matchesAt i p (drop k (x # s))) \<longleftrightarrow>
        matchesAt i p (x # s) \<or> (\<exists>k. matchesAt i p (drop k s))"
  proof
    assume "\<exists>k. matchesAt i p (drop k (x # s))"
    then obtain k where k: "matchesAt i p (drop k (x # s))" by blast
    show "matchesAt i p (x # s) \<or> (\<exists>k. matchesAt i p (drop k s))"
    proof (cases k)
      case 0
      with k show ?thesis by simp
    next
      case (Suc j)
      with k have "matchesAt i p (drop j s)" by simp
      then show ?thesis by blast
    qed
  next
    assume "matchesAt i p (x # s) \<or> (\<exists>k. matchesAt i p (drop k s))"
    then show "\<exists>k. matchesAt i p (drop k (x # s))"
    proof
      assume "matchesAt i p (x # s)"
      then have "matchesAt i p (drop 0 (x # s))" by simp
      then show ?thesis by blast
    next
      assume "\<exists>k. matchesAt i p (drop k s)"
      then obtain k where "matchesAt i p (drop k s)" by blast
      then have "matchesAt i p (drop (Suc k) (x # s))" by simp
      then show ?thesis by blast
    qed
  qed
  with Cons show ?case by simp
qed

lemma regexTest_append:
  assumes "regexTest i (p @ q) s" shows "regexTest i q s"
proof -
  from assms obtain k where "matchesAt i (p @ q) (drop k s)"
    by (auto simp: regexTest_iff)
  then obtain j where "matchesAt i q (drop j (drop k s))"
    using matchesAt_append by blast
  then have "matchesAt i q (drop (j + k) s)" by simp
  then show ?thesis unfolding regexTest_iff by blast
qed

text \<open>
  Claim C8. \<open>isRateLimitError\<close> holds of a text exactly when the text matches one of
  the eight patterns of the specification: the ninth pattern of the code,
  \<open>api_error.*overloaded\<close>, matches only texts that \<open>overloaded\<close> matches already.
\<close>

theorem isRateLimitError_matches_spec_patterns:
  "isRateLimitError err = specIsRateLimitSignal err"
  using regexTest_append [of True "lit ''api_error'' @ [DotStar]" "lit ''overloaded''" err]
  by (auto simp: isRateLimitError_def specIsRateLimitSignal_def rateLimitPatterns_def
      specRateLimitPatterns_def)

lemma isRateLimitError_429: "isRateLimitError (js ''429'')"
  by (simp add: isRateLimitError_def rateLimitPatterns_def lit_def js_def canonicalize_def)

lemma not_isRateLimitError_auth: "\<not> isRateLimitError (js ''not authenticated'')"
  by (simp add: isRateLimitError_def rateLimitPatterns_def lit_def js_def canonicalize_def)


section \<open>Properties of the fallback manager\<close>

lemma startTimeInvariant_initialState: "startTimeInvariant initialState"
  by (simp add: startTimeInvariant_def initialState_def)

lemma startTimeInvariant_getCurrentModel:
  "startTimeInvariant s \<Longrightarrow> startTimeInvariant (snd (getCurrentModel cfg now s))"
  by (auto simp: startTimeInvariant_def getCurrentModel_def resetTorimary_def split: option.splits)

lemma startTimeInvariant_handleError:
  "startTimeInvariant s \<Longrightarrow> startTimeInvariant (snd (handleError cfg now1 now2 err s))"
  by (auto simp: startTimeInvariant_def handleError_def Let_def)

lemma startTimeInvariant_recordSuccess:
  "startTimeInvariant s \<Longrightarrow> startTimeInvariant (recordSuccess cfg model s)"
  by (auto simp: startTimeInvariant_def recordSuccess_def resetTorimary_def Let_def)

lemma startTimeInvariant_applyCall:
  "startTimeInvariant s \<Longrightarrow> startTimeInvariant (applyCall cfg s c)"
  by (cases c)
     (simp_all add: startTimeInvariant_getCurrentModel startTimeInvariant_handleError
        startTimeInvariant_recordSuccess)

lemma startTimeInvariant_applyCalls:
  "startTimeInvariant s \<Longrightarrow> startTimeInvariant (applyCalls cfg calls s)"
  unfolding applyCalls_def
  by (induction calls arbitrary: s) (simp_all add: startTimeInvariant_applyCall)

lemma stampAfterEpoch_applyCall:
  "stampAfterEpoch s \<Longrightarrow> clockAfterEpoch c \<Longrightarrow> stampAfterEpoch (applyCall cfg s c)"
  by (cases c)
     (auto simp: stampAfterEpoch_def getCurrentModel_def handleError_def recordSuccess_def
        resetTorimary_def Let_def split: option.splits if_splits)

lemma stampAfterEpoch_applyCalls:
  "stampAfterEpoch s \<Longrightarrow> \<forall>c\<in>set calls. clockAfterEpoch c \<Longrightarrow>
   stampAfterEpoch (applyCalls cfg calls s)"
  unfolding applyCalls_def
  by (induction calls arbitrary: s) (simp_all add: stampAfterEpoch_applyCall)

lemma getCurrentModel_stamped:
  assumes "inFallback s" and "fallbackStartTime s = Some t" and "t \<noteq> 0"
  shows "getCurrentModel cfg now s =
           (if retryInterval cfg \<le> now - t then (primary cfg, resetTorimary s) else (fallback cfg, s))"
  using assms by (simp add: getCurrentModel_def)

text \<open>
  Claim C5. In every state that the manager reaches from its initial state by calls of
  its public operations (with a clock past the epoch), \<open>getCurrentModel\<close> returns the
  primary model and leaves the state alone when the state is Primary; in Fallback the
  start time is set, and if the time elapsed since then is at least \<open>retryInterval\<close> the
  state is reset to Primary and the primary model is returned, otherwise the state is
  unchanged and the fallback model is returned.
\<close>

theorem getCurrentModel_reachable_spec:
  assumes "\<forall>c\<in>set calls. clockAfterEpoch c"
    and "s = applyCalls cfg calls initialState"
  shows "(\<not> inFallback s \<longrightarrow> getCurrentModel cfg now s = (primary cfg, s)) \<and>
         (inFallback s \<longrightarrow>
            (\<exists>t. fallbackStartTime s = Some t \<and>
               (retryInterval cfg \<le> now - t \<longrightarrow>
                  getCurrentModel cfg now s = (primary cfg, resetTorimary s) \<and>
                  \<not> inFallback (resetTorimary s)) \<and>
               (now - t < retryInterval cfg \<longrightarrow> getCurrentModel cfg now s = (fallback cfg, s))))"
proof (intro conjI impI)
  assume "\<not> inFallback s"
  then show "getCurrentModel cfg now s = (primary cfg, s)"
    by (simp add: getCurrentModel_def)
next
  assume fb: "inFallback s"
  have "startTimeInvariant s"
    using assms(2) startTimeInvariant_applyCalls [OF startTimeInvariant_initialState] by simp
  with fb obtain t where t: "fallbackStartTime s = Some t"
    by (auto simp: startTimeInvariant_def)
  have "stampAfterEpoch initialState"
    by (simp add: stampAfterEpoch_def initialState_def)
  then have "stampAfterEpoch s"
    using assms stampAfterEpoch_applyCalls by blast
  with t have "t \<noteq> 0" by (auto simp: stampAfterEpoch_def)
  with fb t have "getCurrentModel cfg now s =
      (if retryInterval cfg \<le> now - t then (primary cfg, resetTorimary s) else (fallback cfg, s))"
    by (rule getCurrentModel_stamped)
  then have "(retryInterval cfg \<le> now - t \<longrightarrow>
                  getCurrentModel cfg now s = (primary cfg, resetTorimary s) \<and>
                  \<not> inFallback (resetTorimary s)) \<and>
             (now - t < retryInterval cfg \<longrightarrow> getCurrentModel cfg now s = (fallback cfg, s))"
    by (simp add: resetTorimary_def)
  with t show "\<exists>t. fallbackStartTime s = Some t \<and>
               (retryInterval cfg \<le> now - t \<longrightarrow>
                  getCurrentModel cfg now s = (primary cfg, resetTorimary s) \<and>
                  \<not> inFallback (resetTorimary s)) \<and>
               (now - t < retryInterval cfg \<longrightarrow> getCurrentModel cfg now s = (fallback cfg, s))"
    by blast
qed

text \<open>
  The hypotheses of C5 at a concrete history: one rate-limit error, then a reading
  before and one after the retry interval.
\<close>

theorem getCurrentModel_reachable_spec_witness:
  "clockAfterEpoch (HandleError (js ''429'') 1000 1001) \<and>
   inFallback (applyCalls claudeConfig [HandleError (js ''429'') 1000 1001] initialState) \<and>
   getCurrentModel claudeConfig 400000 (applyCalls claudeConfig [HandleError (js ''429'') 1000 1001] initialState)
     = (js ''claude-opus-4-20250514'', initialState\<lparr>lastRateLimitTime := Some 1000\<rparr>) \<and>
   fst (getCurrentModel claudeConfig 2000 (applyCalls claudeConfig [HandleError (js ''429'') 1000 1001] initialState))
     = js ''claude-sonnet-4-20250514''"
  using getCurrentModel_reachable_spec [of "[HandleError (js ''429'') 1000 1001]"
      "applyCalls claudeConfig [HandleError (js ''429'') 1000 1001] initialState" claudeConfig 400000]
    getCurrentModel_reachable_spec [of "[HandleError (js ''429'') 1000 1001]"
      "applyCalls claudeConfig [HandleError (js ''429'') 1000 1001] initialState" claudeConfig 2000]
  by (simp add: applyCalls_def handleError_def isRateLimitError_429 initialState_def claudeConfig_def
      resetTorimary_def)


lemma handleError_in_fallback_stays:
  "inFallback s \<Longrightarrow> inFallback (snd (handleError cfg now1 now2 err s))"
  by (simp add: handleError_def Let_def)

lemma fallbackTransitions_in_fallback:
  "inFallback s \<Longrightarrow> fallbackTransitions cfg errors s = 0"
  by (induction errors arbitrary: s) (auto simp: Let_def handleError_in_fallback_stays)

text \<open>
  Claim C6. \<open>handleError\<close> answers retry-with-the-fallback-model, and switches the state
  from Primary to Fallback with the start time stamped, exactly when the err is a
  rate-limit signal and the state is Primary; in every other case it answers no-retry and
  \<open>inFallback\<close> keeps its value. Over a non-empty sequence of rate-limit errors that
  starts in Primary there is exactly one switch to Fallback.
\<close>

theorem handleError_switch_exactly_once:
  "((fst (handleError cfg now1 now2 err s) = \<lparr>shouldRetry = True, newModel = Some (fallback cfg)\<rparr>)
      = (isRateLimitError err \<and> \<not> inFallback s)) \<and>
   ((\<not> inFallback s \<and> inFallback (snd (handleError cfg now1 now2 err s)))
      = (isRateLimitError err \<and> \<not> inFallback s)) \<and>
   (isRateLimitError err \<and> \<not> inFallback s \<longrightarrow>
      fallbackStartTime (snd (handleError cfg now1 now2 err s)) = Some now2) \<and>
   (\<not> (isRateLimitError err \<and> \<not> inFallback s) \<longrightarrow>
      fst (handleError cfg now1 now2 err s) = \<lparr>shouldRetry = False, newModel = None\<rparr> \<and>
      inFallback (snd (handleError cfg now1 now2 err s)) = inFallback s) \<and>
   (errors \<noteq> [] \<and> (\<forall>e\<in>set errors. isRateLimitError (fst e)) \<and> \<not> inFallback s \<longrightarrow>
      fallbackTransitions cfg errors s = 1)"
proof (intro conjI)
  show "(fst (handleError cfg now1 now2 err s) = \<lparr>shouldRetry = True, newModel = Some (fallback cfg)\<rparr>)
      = (isRateLimitError err \<and> \<not> inFallback s)"
    by (simp add: handleError_def Let_def)
  show "(\<not> inFallback s \<and> inFallback (snd (handleError cfg now1 now2 err s)))
      = (isRateLimitError err \<and> \<not> inFallback s)"
    by (auto simp: handleError_def Let_def)
  show "isRateLimitError err \<and> \<not> inFallback s \<longrightarrow>
      fallbackStartTime (snd (handleError cfg now1 now2 err s)) = Some now2"
    by (simp add: handleError_def Let_def)
  show "\<not> (isRateLimitError err \<and> \<not> inFallback s) \<longrightarrow>
      fst (handleError cfg now1 now2 err s) = \<lparr>shouldRetry = False, newModel = None\<rparr> \<and>
      inFallback (snd (handleError cfg now1 now2 err s)) = inFallback s"
    by (simp add: handleError_def Let_def)
  show "errors \<noteq> [] \<and> (\<forall>e\<in>set errors. isRateLimitError (fst e)) \<and> \<not> inFallback s \<longrightarrow>
      fallbackTransitions cfg errors s = 1"
  proof (cases errors)
    case Nil
    then show ?thesis by simp
  next
    case (Cons e rest)
    obtain err n1 n2 where e: "e = (err, n1, n2)" by (cases e)
    show ?thesis
    proof (intro impI, elim conjE)
      assume rl: "\<forall>e\<in>set errors. isRateLimitError (fst e)" and prim: "\<not> inFallback s"
      from rl Cons e have "isRateLimitError err" by simp
      with prim have fb: "inFallback (snd (handleError cfg n1 n2 err s))"
        by (simp add: handleError_def Let_def)
      then have "fallbackTransitions cfg rest (snd (handleError cfg n1 n2 err s)) = 0"
        by (rule fallbackTransitions_in_fallback)
      with fb prim show "fallbackTransitions cfg errors s = 1"
        by (simp add: Cons e Let_def)
    qed
  qed
qed

text \<open>
  C6 at concrete inputs: a rate-limit error, another error, and three rate-limit errors
  in a row.
\<close>

theorem handleError_switch_exactly_once_witness:
  "fst (handleError claudeConfig 1000 1001 (js ''429'') initialState)
     = \<lparr>shouldRetry = True, newModel = Some (js ''claude-sonnet-4-20250514'')\<rparr> \<and>
   fst (handleError claudeConfig 1000 1001 (js ''not authenticated'') initialState)
     = \<lparr>shouldRetry = False, newModel = None\<rparr> \<and>
   fallbackTransitions claudeConfig [(js ''429'', 1000, 1001), (js ''429'', 2000, 2001), (js ''429'', 3000, 3001)]
     initialState = 1"
  using handleError_switch_exactly_once [of claudeConfig 1000 1001 "js ''429''" initialState
      "[(js ''429'', 1000, 1001), (js ''429'', 2000, 2001), (js ''429'', 3000, 3001)]"]
    handleError_switch_exactly_once [of claudeConfig 1000 1001 "js ''not authenticated''" initialState "[]"]
  by (simp add: isRateLimitError_429 not_isRateLimitError_auth initialState_def claudeConfig_def)

text \<open>
  Claim C7 as stated fails: a rate-limit error received in Fallback changes the state,
  since the error counter and the time of the last rate-limit error are updated before
  the state is looked at.
\<close>

theorem handleError_fallback_state_changes:
  "isRateLimitError (js ''429'') \<and> inFallback fallbackExample \<and>
   snd (handleError claudeConfig 2000 2001 (js ''429'') fallbackExample) \<noteq> fallbackExample \<and>
   rateLimitCount (snd (handleError claudeConfig 2000 2001 (js ''429'') fallbackExample)) = 2 \<and>
   lastRateLimitTime (snd (handleError claudeConfig 2000 2001 (js ''429'') fallbackExample)) = Some 2000"
  by (simp add: isRateLimitError_429 handleError_def fallbackExample_def)

text \<open>
  Claim C7, amended. A rate-limit error received in Fallback is answered with no-retry;
  \<open>inFallback\<close> and \<open>fallbackStartTime\<close> keep their values, \<open>rateLimitCount\<close> grows by one
  and \<open>lastRateLimitTime\<close> becomes the current time.
\<close>

theorem handleError_fallback_frame:
  assumes "isRateLimitError err" and "inFallback s"
  shows "handleError cfg now1 now2 err s =
           (\<lparr>shouldRetry = False, newModel = None\<rparr>,
            s\<lparr>rateLimitCount := rateLimitCount s + 1, lastRateLimitTime := Some now1\<rparr>) \<and>
         inFallback (snd (handleError cfg now1 now2 err s)) = inFallback s \<and>
         fallbackStartTime (snd (handleError cfg now1 now2 err s)) = fallbackStartTime s"
  using assms by (simp add: handleError_def Let_def)

text \<open>
  The amended C7 at the state of the counterexample.
\<close>

theorem handleError_fallback_frame_witness:
  "isRateLimitError (js ''429'') \<and> inFallback fallbackExample \<and>
   handleError claudeConfig 2000 2001 (js ''429'') fallbackExample =
     (\<lparr>shouldRetry = False, newModel = None\<rparr>,
      \<lparr>inFallback = True, fallbackStartTime = Some 1001, lastRateLimitTime = Some 2000, rateLimitCount = 2\<rparr>)"
  using handleError_fallback_frame [of "js ''429''" fallbackExample claudeConfig 2000 2001]
  by (simp add: isRateLimitError_429 fallbackExample_def)

text \<open>
  Claim C10. \<open>inFallback\<close> holds exactly when \<open>fallbackStartTime\<close> is set: this is true
  of the initial state and preserved by \<open>getCurrentModel\<close>, \<open>handleError\<close> and
  \<open>recordSuccess\<close>, so it holds after every sequence of calls, and the manager is never in
  Fallback with a start time of \<open>null\<close> (the case of the last \<open>return\<close> of
  \<open>getCurrentModel\<close>).
\<close>

theorem startTimeInvariant_maintained:
  "startTimeInvariant initialState \<and>
   (startTimeInvariant s \<longrightarrow> startTimeInvariant (snd (getCurrentModel cfg now s))) \<and>
   (startTimeInvariant s \<longrightarrow> startTimeInvariant (snd (handleError cfg now1 now2 err s))) \<and>
   (startTimeInvariant s \<longrightarrow> startTimeInvariant (recordSuccess cfg model s)) \<and>
   startTimeInvariant (applyCalls cfg calls initialState) \<and>
   \<not> (inFallback (applyCalls cfg calls initialState) \<and>
       fallbackStartTime (applyCalls cfg calls initialState) = None)"
proof -
  have reach: "startTimeInvariant (applyCalls cfg calls initialState)"
    by (rule startTimeInvariant_applyCalls [OF startTimeInvariant_initialState])
  then have "\<not> (inFallback (applyCalls cfg calls initialState) \<and>
       fallbackStartTime (applyCalls cfg calls initialState) = None)"
    by (auto simp: startTimeInvariant_def)
  with reach show ?thesis
    by (simp add: startTimeInvariant_initialState startTimeInvariant_getCurrentModel
        startTimeInvariant_handleError startTimeInvariant_recordSuccess)
qed

text \<open>
  C10 at a concrete state in Fallback and a concrete history.
\<close>

theorem startTimeInvariant_maintained_witness:
  "startTimeInvariant fallbackExample \<and>
   startTimeInvariant (snd (getCurrentModel claudeConfig 400000 fallbackExample)) \<and>
   startTimeInvariant (snd (handleError claudeConfig 2000 2001 (js ''429'') fallbackExample)) \<and>
   startTimeInvariant (recordSuccess claudeConfig (js ''claude-opus-4-20250514'') fallbackExample) \<and>
   fallbackStartTime (applyCalls claudeConfig [HandleError (js ''429'') 1000 1001] initialState) = Some 1001"
  using startTimeInvariant_maintained [of fallbackExample claudeConfig 400000 2000 2001 "js ''429''"
      "js ''claude-opus-4-20250514''" "[HandleError (js ''429'') 1000 1001]"]
  by (simp add: startTimeInvariant_def fallbackExample_def applyCalls_def handleError_def
      isRateLimitError_429 initialState_def)

section \<open>Properties of the sequential executor\<close>

subsection \<open>Histories only grow\<close>


lemma appends_refl: "appends P st st"
  by (simp add: appends_def)

lemma appends_trans: "appends P a b \<Longrightarrow> appends P b c \<Longrightarrow> appends P a c"
  by (auto simp: appends_def)

lemma appends_mono: "appends P a b \<Longrightarrow> (\<And>e. P e \<Longrightarrow> Q e) \<Longrightarrow> appends Q a b"
  by (auto simp: appends_def list_all_iff)

lemma appends_logEvent: "P e \<Longrightarrow> appends P st (logEvent e st)"
  by (simp add: appends_def logEvent_def)

lemma appends_same_trace: "trace b = trace a \<Longrightarrow> appends P a b"
  by (simp add: appends_def)

lemma quiet_refl: "quiet P st st"
  by (simp add: quiet_def appends_refl)

lemma quiet_trans: "quiet P a b \<Longrightarrow> quiet P b c \<Longrightarrow> quiet P a c"
  by (auto simp: quiet_def intro: appends_trans)

lemma quiet_mono: "quiet P a b \<Longrightarrow> (\<And>e. P e \<Longrightarrow> Q e) \<Longrightarrow> quiet Q a b"
  by (auto simp: quiet_def intro: appends_mono)

lemma quiet_appends: "quiet P a b \<Longrightarrow> appends P a b"
  by (simp add: quiet_def)

lemma quiet_managerGetCurrentModel:
  "(\<And>c. P (Manager c)) \<Longrightarrow> quiet P st (snd (managerGetCurrentModel env cfg st))"
  by (simp add: quiet_def appends_def managerGetCurrentModel_def logEvent_def Let_def)

lemma quiet_managerHandleError:
  "(\<And>c. P (Manager c)) \<Longrightarrow> quiet P st (snd (managerHandleError env cfg e st))"
  by (simp add: quiet_def appends_def managerHandleError_def logEvent_def Let_def)

lemma quiet_managerRecordSuccess:
  "(\<And>c. P (Manager c)) \<Longrightarrow> quiet P st (managerRecordSuccess cfg m st)"
  by (simp add: quiet_def appends_def managerRecordSuccess_def logEvent_def)

lemma quiet_modelOrOverride:
  "(\<And>c. P (Manager c)) \<Longrightarrow> quiet P st (snd (modelOrOverride env opts cfg st))"
  by (simp add: modelOrOverride_def quiet_managerGetCurrentModel quiet_refl split: option.splits)

lemma quiet_onRetry:
  "(\<And>c. P (Manager c)) \<Longrightarrow> quiet P st (onRetry env cfg n st)"
  by (simp add: onRetry_def quiet_managerGetCurrentModel)

lemma quiet_engineRun:
  "P (EngineRun task m r) \<Longrightarrow> quiet P st (logEvent (EngineRun task m r) st)"
  by (simp add: quiet_def appends_def logEvent_def)

lemma quiet_feedback:
  "quiet P st (st\<lparr>collectedFeedback := f\<rparr>)"
  by (simp add: quiet_def appends_def)

lemma quiet_attempt:
  assumes m: "\<And>c. P (Manager c)" and e: "\<And>m r. P (EngineRun task m r)"
  shows "quiet P st (snd (attempt env opts cfg task st))"
proof -
  let ?st1 = "snd (modelOrOverride env opts cfg st)"
  let ?model = "fst (modelOrOverride env opts cfg st)"
  have q1: "quiet P st ?st1" using m by (rule quiet_modelOrOverride)
  have q2: "quiet P st (logEvent (EngineRun task ?model r) ?st1)" for r
    using q1 quiet_engineRun [of P task ?model r ?st1] e by (blast intro: quiet_trans)
  have q3: "quiet P st (snd (managerHandleError env cfg x (logEvent (EngineRun task ?model r) ?st1)))"
    for x r
    using q2 [of r] quiet_managerHandleError [of P "logEvent (EngineRun task ?model r) ?st1" env cfg x] m
    by (blast intro: quiet_trans)
  have q4: "quiet P st ((logEvent (EngineRun task ?model r) ?st1)\<lparr>collectedFeedback := f\<rparr>)" for f r
    using q2 [of r] quiet_feedback [of P "logEvent (EngineRun task ?model r) ?st1" f]
    by (blast intro: quiet_trans)
  show ?thesis
    using q2 q3 q4 by (simp add: attempt_def Let_def split: sum.splits option.splits)
qed

lemma retryLoop_preserves:
  assumes fn: "\<And>s. Q s \<Longrightarrow> Q (snd (fn s))"
    and retry: "\<And>k s. Q s \<Longrightarrow> Q (retry k s)"
    and start: "Q st"
  shows "Q (snd (retryLoop a n fn retry st))"
  using start
proof (induction n arbitrary: a st)
  case 0
  then show ?case by simp
next
  case (Suc n)
  obtain x st1 where f: "fn st = (x, st1)" by (cases "fn st")
  from Suc.prems fn [of st] f have q1: "Q st1" by simp
  show ?case
  proof (cases x)
    case (Inl e)
    show ?thesis
    proof (cases "n = 0")
      case True
      with f Inl q1 show ?thesis by simp
    next
      case False
      from q1 have "Q (retry a st1)" by (rule retry)
      then have "Q (snd (retryLoop (a + 1) n fn retry (retry a st1)))" by (rule Suc.IH)
      with f Inl False show ?thesis by simp
    qed
  next
    case (Inr v)
    with f q1 show ?thesis by simp
  qed
qed


lemma quiet_executeTask:
  assumes m: "\<And>c. P (Manager c)" and e: "\<And>m r. P (EngineRun task m r)"
  shows "quiet P st (snd (executeTask env opts cfg task st))"
proof -
  let ?st1 = "snd (modelOrOverride env opts cfg st)"
  have q1: "quiet P st ?st1" using m by (rule quiet_modelOrOverride)
  have "quiet P st (snd (retryLoop 1 (nat (maxRetries opts)) (attempt env opts cfg task)
          (onRetry env cfg) ?st1))"
  proof (rule retryLoop_preserves [where Q = "quiet P st"])
    fix s assume "quiet P st s"
    then show "quiet P st (snd (attempt env opts cfg task s))"
      using quiet_attempt [of P task s env opts cfg] m e by (blast intro: quiet_trans)
  next
    fix k s assume "quiet P st s"
    then show "quiet P st (onRetry env cfg k s)"
      using quiet_onRetry [of P s env cfg k] m by (blast intro: quiet_trans)
  next
    show "quiet P st ?st1" by (rule q1)
  qed
  then show ?thesis by (simp add: executeTask_def withRetry_def)
qed

subsection \<open>One iteration of the loop\<close>

lemma eventsSince_eq: "trace b = trace a @ evs \<Longrightarrow> eventsSince a b = evs"
  by (simp add: eventsSince_def)

lemma appends_eventsSince:
  "appends P a b \<Longrightarrow> trace b = trace a @ eventsSince a b \<and> list_all P (eventsSince a b)"
  by (auto simp: appends_def eventsSince_def)

lemma trace_fetched:
  "trace (fetched env task st) =
     trace st @ [ChatQueue (processChatQueue env (trace st)), GetNextTask (Some task)]"
  by (simp add: fetched_def drainChat_def logEvent_def)

lemma fields_fetched:
  "result (fetched env task st) = result st \<and> iteration (fetched env task st) = iteration st \<and>
   abortDueToRetryableFailure (fetched env task st) = abortDueToRetryableFailure st \<and>
   deferred (fetched env task st) = deferred st"
  by (simp add: fetched_def drainChat_def logEvent_def)

lemma quiet_createBranch:
  "(\<And>r. P (CreateTaskBranch task r)) \<Longrightarrow> quiet P st (snd (createBranch env opts task st))"
  by (simp add: quiet_def appends_def createBranch_def logEvent_def Let_def split: sum.splits)

lemma quiet_returnToBase:
  "P ReturnToBaseBranch \<Longrightarrow> quiet P st (returnToBase opts st)"
  by (simp add: quiet_def appends_def returnToBase_def logEvent_def)

lemma invocation_frame:
  assumes "\<And>r. P (CreateTaskBranch task r)" and "\<And>c. P (Manager c)"
    and "\<And>m r. P (EngineRun task m r)"
  shows "appends P st (snd (invocation env opts cfg task st)) \<and>
         result (snd (invocation env opts cfg task st)) = result st \<and>
         abortDueToRetryableFailure (snd (invocation env opts cfg task st))
           = abortDueToRetryableFailure st \<and>
         deferred (snd (invocation env opts cfg task st)) = deferred st \<and>
         iteration (snd (invocation env opts cfg task st)) = iteration st + 1"
proof -
  let ?s0 = "st\<lparr>iteration := iteration st + 1\<rparr>"
  let ?s1 = "snd (createBranch env opts task ?s0)"
  have "quiet P ?s0 ?s1" using assms(1) by (rule quiet_createBranch)
  moreover have "quiet P ?s1 (snd (executeTask env opts cfg task ?s1))"
    using assms(2,3) by (rule quiet_executeTask)
  ultimately have "quiet P ?s0 (snd (invocation env opts cfg task st))"
    unfolding invocation_def by (rule quiet_trans)
  then show ?thesis by (simp add: quiet_def appends_def)
qed

lemma runTask_live:
  "\<not> dryRun opts \<Longrightarrow>
   runTask env opts cfg task st =
     afterExecute env opts cfg task (fst (createBranch env opts task (st\<lparr>iteration := iteration st + 1\<rparr>)))
       (invocation env opts cfg task st)"
  by (simp add: runTask_def invocation_def Let_def)

lemma afterExecute_failure:
  "failureMessage (fst x) = Some e \<Longrightarrow>
   afterExecute env opts cfg task branch x = onFailure env opts task e (snd x)"
  by (auto simp: failureMessage_def afterExecute_def split: sum.splits if_splits)

lemma onFailure_retryable:
  assumes "isRetryableError env e"
    and "d = (case deferred st (task_id task) of None \<Rightarrow> 1 | Some c \<Rightarrow> c + 1)"
  shows "fst (onFailure env opts task e st) = False"
    and "trace (snd (onFailure env opts task e st)) =
           trace st @ RecordDeferredTask (task_id task) d #
             (if maxRetries opts \<le> int d then [ClearDeferredTask (task_id task)] else [])"
    and "result (snd (onFailure env opts task e st)) =
           (result st)\<lparr>tasksFailed := tasksFailed (result st) + 1\<rparr>"
    and "abortDueToRetryableFailure (snd (onFailure env opts task e st)) =
           (if maxRetries opts \<le> int d then abortDueToRetryableFailure st else True)"
    and "deferred (snd (onFailure env opts task e st)) =
           (if maxRetries opts \<le> int d then (deferred st)(task_id task := None)
            else (deferred st)(task_id task \<mapsto> d))"
  using assms
  by (simp_all add: onFailure_def recordDeferredTask_def clearDeferredTask_def failTask_def
      logEvent_def Let_def)

lemma onFailure_fatal:
  assumes "\<not> isRetryableError env e" and "isFatalError env e"
  shows "onFailure env opts task e st = (True, logEvent CleanupInputListener (failTask st))"
  using assms by (simp add: onFailure_def)

lemma runLoop_step:
  assumes "\<not> (0 < maxIterations opts \<and> maxIterations opts \<le> iteration st)"
    and "getNextTask env (trace (drainChat env st)) = Some task"
  shows "runLoop (Suc fuel) env opts cfg st =
     (let r = runTask env opts cfg task (fetched env task st)
      in if fst r then r
         else if abortDueToRetryableFailure (returnToBase opts (snd r))
              then (True, logEvent CleanupInputListener (returnToBase opts (snd r)))
              else runLoop fuel env opts cfg (returnToBase opts (snd r)))"
proof -
  have "iteration (drainChat env st) = iteration st"
    by (simp add: drainChat_def logEvent_def)
  with assms show ?thesis by (auto simp: Let_def fetched_def)
qed


text \<open>
  Claim C2. Take any state at the head of the loop from which a task is fetched, in a
  run that is not a dry run. When the engine invocation for the task ends in a retryable
  failure, the deferral counter of the task is incremented (to \<open>d\<close>) and
  \<open>tasksFailed\<close> grows by one; the task is not marked complete and no other task is fetched
  in this iteration. If \<open>d\<close> has reached \<open>maxRetries\<close> the record of the task is cleared
  and the loop goes on from the state after this iteration; if \<open>d\<close> is below
  \<open>maxRetries\<close> the record keeps \<open>d\<close> and \<open>runSequential\<close> returns after this iteration.
\<close>

theorem retryable_failure_defers_or_stops:
  assumes live: "\<not> dryRun opts"
    and cap: "\<not> (0 < maxIterations opts \<and> maxIterations opts \<le> iteration st)"
    and head: "\<not> abortDueToRetryableFailure st"
    and fetch: "getNextTask env (trace (drainChat env st)) = Some task"
    and fail: "failureMessage (fst (invocation env opts cfg task (fetched env task st))) = Some e"
    and retryable: "isRetryableError env e"
    and d: "d = (case deferred st (task_id task) of None \<Rightarrow> 1 | Some c \<Rightarrow> c + 1)"
    and st': "st' = returnToBase opts (snd (runTask env opts cfg task (fetched env task st)))"
  shows "RecordDeferredTask (task_id task) d \<in> set (eventsSince st st') \<and>
         appends (\<lambda>e. \<not> isGetNextTask e \<and> \<not> isMarkComplete e) (fetched env task st) st' \<and>
         result st' = (result st)\<lparr>tasksFailed := tasksFailed (result st) + 1\<rparr> \<and>
         (maxRetries opts \<le> int d \<longrightarrow>
            deferred st' = (deferred st)(task_id task := None) \<and>
            runLoop (Suc fuel) env opts cfg st = runLoop fuel env opts cfg st') \<and>
         (int d < maxRetries opts \<longrightarrow>
            deferred st' = (deferred st)(task_id task \<mapsto> d) \<and>
            runLoop (Suc fuel) env opts cfg st = (True, logEvent CleanupInputListener st'))"
proof -
  let ?P = "\<lambda>e. \<not> isGetNextTask e \<and> \<not> isMarkComplete e"
  let ?s0 = "fetched env task st"
  let ?x = "invocation env opts cfg task ?s0"
  let ?f = "onFailure env opts task e (snd ?x)"
  have frame: "appends ?P ?s0 (snd ?x)" "result (snd ?x) = result st"
    "abortDueToRetryableFailure (snd ?x) = abortDueToRetryableFailure st"
    "deferred (snd ?x) = deferred st"
    using invocation_frame [of ?P task ?s0 env opts cfg] fields_fetched [of env task st]
    by simp_all
  have d': "d = (case deferred (snd ?x) (task_id task) of None \<Rightarrow> 1 | Some c \<Rightarrow> c + 1)"
    using d frame(4) by simp
  note f = onFailure_retryable [OF retryable d', of opts]
  have task: "runTask env opts cfg task ?s0 = ?f"
    using live fail by (simp add: runTask_live afterExecute_failure)
  then have st'': "st' = returnToBase opts (snd ?f)" using st' by simp
  have a1: "appends ?P (snd ?x) (snd ?f)"
    using f(2) by (simp add: appends_def)
  have a2: "appends ?P (snd ?f) st'"
    unfolding st'' using quiet_returnToBase [of ?P "snd ?f" opts] by (simp add: quiet_def)
  have app: "appends ?P ?s0 st'"
    using frame(1) a1 a2 by (blast intro: appends_trans)
  have rec: "RecordDeferredTask (task_id task) d \<in> set (eventsSince st st')"
  proof -
    from frame(1) obtain evs1 where e1: "trace (snd ?x) = trace ?s0 @ evs1"
      by (auto simp: appends_def)
    from a2 obtain evs2 where e2: "trace st' = trace (snd ?f) @ evs2"
      by (auto simp: appends_def)
    have "trace st' = trace st @
        ([ChatQueue (processChatQueue env (trace st)), GetNextTask (Some task)] @ evs1 @
         RecordDeferredTask (task_id task) d #
           (if maxRetries opts \<le> int d then [ClearDeferredTask (task_id task)] else []) @ evs2)"
      using e1 e2 f(2) trace_fetched [of env task st] by simp
    then have "eventsSince st st' =
        [ChatQueue (processChatQueue env (trace st)), GetNextTask (Some task)] @ evs1 @
         RecordDeferredTask (task_id task) d #
           (if maxRetries opts \<le> int d then [ClearDeferredTask (task_id task)] else []) @ evs2"
      by (rule eventsSince_eq)
    then show ?thesis by simp
  qed
  have q: "result st' = result (snd ?f)" "deferred st' = deferred (snd ?f)"
    "abortDueToRetryableFailure st' = abortDueToRetryableFailure (snd ?f)"
    unfolding st'' by (simp_all add: returnToBase_def logEvent_def)
  have res: "result st' = (result st)\<lparr>tasksFailed := tasksFailed (result st) + 1\<rparr>"
    using q(1) f(3) frame(2) by simp
  have loop: "runLoop (Suc fuel) env opts cfg st =
      (if abortDueToRetryableFailure st' then (True, logEvent CleanupInputListener st')
       else runLoop fuel env opts cfg st')"
    using runLoop_step [OF cap fetch, of fuel cfg] task f(1) st'' by (simp add: Let_def)
  have many: "maxRetries opts \<le> int d \<longrightarrow>
            deferred st' = (deferred st)(task_id task := None) \<and>
            runLoop (Suc fuel) env opts cfg st = runLoop fuel env opts cfg st'"
    using loop q(2,3) f(4,5) frame(3,4) head by simp
  have few: "int d < maxRetries opts \<longrightarrow>
            deferred st' = (deferred st)(task_id task \<mapsto> d) \<and>
            runLoop (Suc fuel) env opts cfg st = (True, logEvent CleanupInputListener st')"
    using loop q(2,3) f(4,5) frame(3,4) by simp
  from rec app res many few show ?thesis by blast
qed

subsection \<open>A backlog of one task that succeeds\<close>

lemma attempt_success:
  assumes "engineExecute env (trace (snd (modelOrOverride env opts cfg st))) task
             (fst (modelOrOverride env opts cfg st)) = Inr r"
    and "success r"
  shows "fst (attempt env opts cfg task st) = Inr r"
  using assms by (simp add: attempt_def Let_def split: option.splits)

lemma executeTask_success:
  assumes "\<And>tr m. engineExecute env tr task m = Inr r" and "success r"
    and "1 \<le> maxRetries opts"
  shows "fst (executeTask env opts cfg task st) = Inr r"
proof -
  obtain k where k: "nat (maxRetries opts) = Suc k"
    using assms(3) by (cases "nat (maxRetries opts)") auto
  let ?s = "snd (modelOrOverride env opts cfg st)"
  have "fst (attempt env opts cfg task ?s) = Inr r"
    using assms(1,2) by (simp add: attempt_success)
  then obtain s' where "attempt env opts cfg task ?s = (Inr r, s')"
    by (cases "attempt env opts cfg task ?s") simp
  then show ?thesis by (simp add: executeTask_def withRetry_def k)
qed

lemma onSuccess_clean:
  assumes "\<And>tr i. markComplete env tr i = None" and "\<And>tr. syncPrdToIssue env tr = None"
    and "\<And>tr b. createPullRequest env tr b = None" and "\<not> isTTY env"
  shows "fst (onSuccess env opts task branch r st) = None \<and>
         result (snd (onSuccess env opts task branch r st)) =
           (result st)\<lparr>tasksCompleted := tasksCompleted (result st) + 1,
              totalInputTokens := totalInputTokens (result st) + inputTokens r,
              totalOutputTokens := totalOutputTokens (result st) + outputTokens r\<rparr> \<and>
         abortDueToRetryableFailure (snd (onSuccess env opts task branch r st))
           = abortDueToRetryableFailure st \<and>
         MarkComplete (task_id task) None \<in> set (trace (snd (onSuccess env opts task branch r st)))"
  using assms
  by (simp add: onSuccess_def syncIssueStep_def pullRequestStep_def userMessage_def
      clearDeferredTask_def completeTask_def addTokens_def
      logEvent_def Let_def split: option.splits)

lemma appends_member: "appends P a b \<Longrightarrow> e \<in> set (trace a) \<Longrightarrow> e \<in> set (trace b)"
  by (auto simp: appends_def)

lemma backlog_single_fresh:
  "\<forall>e\<in>set tr. \<not> isMarkComplete e \<Longrightarrow> backlogTaskSource [task] tr = Some task"
  by (auto simp: backlogTaskSource_def)

lemma backlog_single_done:
  "MarkComplete (task_id task) None \<in> set tr \<Longrightarrow> backlogTaskSource [task] tr = None"
  by (simp add: backlogTaskSource_def)

lemma runLoop_last:
  assumes "getNextTask env (trace (drainChat env st)) = None"
  shows "fst (runLoop (Suc fuel) env opts cfg st) \<and>
         result (snd (runLoop (Suc fuel) env opts cfg st)) = result st"
  using assms by (simp add: Let_def drainChat_def logEvent_def)

text \<open>
  Claim C9. The task source is a backlog of exactly one task, the run is neither
  interactive nor a dry run, every engine invocation returns a successful result with
  100 input and 50 output tokens, at least one attempt is allowed, and no collaborator of
  the success path throws. Then \<open>runSequential\<close> returns (two rounds of the loop are
  enough) with the result \<open>{tasksCompleted: 1, tasksFailed: 0, totalInputTokens: 100,
  totalOutputTokens: 50}\<close>.
\<close>

theorem single_task_success:
  assumes source: "getNextTask env = backlogTaskSource [task]"
    and terminal: "\<not> isTTY env" and live: "\<not> dryRun opts"
    and engine: "\<And>tr t m. engineExecute env tr t m = Inr r"
    and r: "success r" "inputTokens r = 100" "outputTokens r = 50"
    and attempts: "1 \<le> maxRetries opts"
    and collaborators: "\<And>tr i. markComplete env tr i = None" "\<And>tr. syncPrdToIssue env tr = None"
      "\<And>tr b. createPullRequest env tr b = None"
    and fuel: "2 \<le> fuel"
  shows "fst (runSequential env opts fuel) \<and>
         result (snd (runSequential env opts fuel)) =
           \<lparr>tasksCompleted = 1, tasksFailed = 0, totalInputTokens = 100, totalOutputTokens = 50\<rparr>"
proof -
  let ?cfg = "createModelFallbackManager (engineNameLowerCase env)"
  let ?i = "initialLoopState env"
  let ?start = "fetched env task ?i"
  let ?b = "fst (createBranch env opts task (?start\<lparr>iteration := iteration ?start + 1\<rparr>))"
  let ?x = "invocation env opts ?cfg task ?start"
  let ?u = "modelOrOverride env opts ?cfg (snd ?x)"
  let ?rec = "managerRecordSuccess ?cfg (fst ?u) (snd ?u)"
  let ?ok = "onSuccess env opts task ?b r ?rec"
  let ?nxt = "returnToBase opts (snd ?ok)"
  obtain n where n: "fuel = Suc (Suc n)"
    using fuel by (cases fuel; cases "fuel - 1") auto
  have cap: "\<not> (0 < maxIterations opts \<and> maxIterations opts \<le> iteration ?i)"
    by (simp add: initialLoopState_def)
  have fetch: "getNextTask env (trace (drainChat env ?i)) = Some task"
    by (simp add: source backlog_single_fresh drainChat_def logEvent_def initialLoopState_def)
  have out: "fst ?x = Inr r"
    unfolding invocation_def using engine r(1) attempts by (rule executeTask_success)
  have fx: "result (snd ?x) = result ?i"
    "abortDueToRetryableFailure (snd ?x) = abortDueToRetryableFailure ?i"
    using invocation_frame [of "\<lambda>e. True" task ?start env opts ?cfg] fields_fetched [of env task ?i]
    by simp_all
  have q1: "quiet (\<lambda>e. True) (snd ?x) ?rec"
    using quiet_modelOrOverride [of "\<lambda>e. True" "snd ?x" env opts ?cfg]
      quiet_managerRecordSuccess [of "\<lambda>e. True" "snd ?u" ?cfg "fst ?u"]
    by (blast intro: quiet_trans)
  note s = onSuccess_clean [OF collaborators terminal, of opts task ?b r ?rec]
  have task: "runTask env opts ?cfg task ?start = (False, snd ?ok)"
    using live out r(1) s by (simp add: runTask_live afterExecute_def Let_def)
  have res: "result ?nxt =
      \<lparr>tasksCompleted = 1, tasksFailed = 0, totalInputTokens = 100, totalOutputTokens = 50\<rparr>"
    using s q1 fx(1) r(2,3)
    by (simp add: returnToBase_def logEvent_def quiet_def initialLoopState_def)
  have go: "\<not> abortDueToRetryableFailure ?nxt"
    using s q1 fx(2)
    by (simp add: returnToBase_def logEvent_def quiet_def initialLoopState_def)
  have marked: "MarkComplete (task_id task) None \<in> set (trace (drainChat env ?nxt))"
    using s by (simp add: returnToBase_def drainChat_def logEvent_def)
  have step: "runLoop fuel env opts ?cfg ?i = runLoop (Suc n) env opts ?cfg ?nxt"
    unfolding n using runLoop_step [OF cap fetch, of "Suc n" ?cfg] task go by (simp add: Let_def)
  have "getNextTask env (trace (drainChat env ?nxt)) = None"
    using marked by (simp add: source backlog_single_done)
  then have "fst (runLoop (Suc n) env opts ?cfg ?nxt) \<and>
         result (snd (runLoop (Suc n) env opts ?cfg ?nxt)) = result ?nxt"
    by (rule runLoop_last)
  with step res show ?thesis by (simp add: runSequential_def)
qed

subsection \<open>Outcomes of the retried invocation\<close>

lemma retryLoop_first_returns:
  "fst (fn st) = Inr v \<Longrightarrow> fst (retryLoop a (Suc n) fn retry st) = Inr v"
  by (cases "fn st") simp

lemma retryLoop_all_throw:
  "(\<And>s. fst (fn s) = Inl e) \<Longrightarrow> fst (retryLoop a (Suc n) fn retry st) = Inl e"
proof (induction n arbitrary: a st)
  case 0
  from 0 [of st] show ?case by (cases "fn st") simp
next
  case (Suc n)
  obtain s1 where f: "fn st = (Inl e, s1)"
    using Suc.prems [of st] by (cases "fn st") simp
  have "fst (retryLoop (a + 1) (Suc n) fn retry (retry a s1)) = Inl e"
    using Suc.prems by (rule Suc.IH)
  with f show ?case by simp
qed

lemma attempt_returns_failure:
  assumes "\<not> executeStreaming env"
    and "\<And>tr m. engineExecute env tr task m = Inr res"
    and "error res = Some e" and "\<not> isRateLimitError e" and "\<not> isRetryableError env e"
  shows "fst (attempt env opts cfg task st) = Inr res"
  using assms by (simp add: attempt_def managerHandleError_def handleError_def Let_def)

lemma attempt_throws_retryable:
  assumes "\<not> executeStreaming env"
    and "\<And>tr m. engineExecute env tr task m = Inr res"
    and "\<not> success res" and "error res = Some e" and "truthy e" and "isRetryableError env e"
  shows "fst (attempt env opts cfg task st) = Inl e"
  using assms by (simp add: attempt_def Let_def)

lemma executeTask_returns:
  assumes "\<And>s. fst (attempt env opts cfg task s) = Inr v" and "1 \<le> maxRetries opts"
  shows "fst (executeTask env opts cfg task st) = Inr v"
proof -
  obtain k where k: "nat (maxRetries opts) = Suc k"
    using assms(2) by (cases "nat (maxRetries opts)") auto
  have "fst (retryLoop 1 (Suc k) (attempt env opts cfg task) (onRetry env cfg)
          (snd (modelOrOverride env opts cfg st))) = Inr v"
    by (rule retryLoop_first_returns) (rule assms(1))
  then show ?thesis by (simp only: executeTask_def withRetry_def k)
qed

lemma executeTask_throws:
  assumes "\<And>s. fst (attempt env opts cfg task s) = Inl e" and "1 \<le> maxRetries opts"
  shows "fst (executeTask env opts cfg task st) = Inl e"
proof -
  obtain k where k: "nat (maxRetries opts) = Suc k"
    using assms(2) by (cases "nat (maxRetries opts)") auto
  have "fst (retryLoop 1 (Suc k) (attempt env opts cfg task) (onRetry env cfg)
          (snd (modelOrOverride env opts cfg st))) = Inl e"
    by (rule retryLoop_all_throw) (rule assms(1))
  then show ?thesis by (simp only: executeTask_def withRetry_def k)
qed

subsection \<open>The concrete environments\<close>

lemma example_texts:
  "\<not> isRateLimitError (js ''not authenticated'')"
  "regexTest True (lit ''not authenticated'') (js ''not authenticated'')"
  "isRateLimitError (js ''HTTP 429'')"
  "truthy (js ''main'')" "truthy (js ''not authenticated'')" "truthy (js ''HTTP 429'')"
  by (simp_all add: isRateLimitError_def rateLimitPatterns_def lit_def js_def canonicalize_def
      truthy_def)

lemmas example_defs =
  fatalEnv_def rateLimitedEnv_def exampleEnv_def exampleOptions_def claudeConfig_def task1_def
  task2_def failed_def succeeded_def initialLoopState_def

lemma fatalEnv_fetch:
  "getNextTask fatalEnv (trace (drainChat fatalEnv (initialLoopState fatalEnv))) = Some task1"
  by (simp add: example_defs drainChat_def logEvent_def backlogTaskSource_def)

lemma fatalEnv_outcome:
  "failureMessage (fst (invocation fatalEnv exampleOptions cfg task st))
     = Some (js ''not authenticated'')"
proof -
  have "fst (attempt fatalEnv exampleOptions cfg task s) = Inr (failed (js ''not authenticated''))"
    for s
    by (rule attempt_returns_failure [where e = "js ''not authenticated''"])
       (simp_all add: fatalEnv_def exampleEnv_def failed_def example_texts)
  then have "fst (invocation fatalEnv exampleOptions cfg task st)
      = Inr (failed (js ''not authenticated''))"
    unfolding invocation_def by (rule executeTask_returns) (simp add: exampleOptions_def)
  then show ?thesis
    by (simp add: failureMessage_def errorOrUnknown_def failed_def example_texts)
qed

lemma fatalEnv_classified:
  "\<not> isRetryableError fatalEnv (js ''not authenticated'')"
  "isFatalError fatalEnv (js ''not authenticated'')"
  by (simp_all add: fatalEnv_def exampleEnv_def example_texts)

lemma rateLimitedEnv_fetch:
  "getNextTask rateLimitedEnv (trace (drainChat rateLimitedEnv (initialLoopState rateLimitedEnv)))
     = Some task1"
  by (simp add: example_defs drainChat_def logEvent_def backlogTaskSource_def)

lemma rateLimitedEnv_outcome:
  "failureMessage (fst (invocation rateLimitedEnv exampleOptions cfg task st)) = Some (js ''HTTP 429'')"
proof -
  have "fst (attempt rateLimitedEnv exampleOptions cfg task s) = Inl (js ''HTTP 429'')" for s
    by (rule attempt_throws_retryable [where res = "failed (js ''HTTP 429'')"])
       (simp_all add: rateLimitedEnv_def exampleEnv_def failed_def example_texts)
  then have "fst (invocation rateLimitedEnv exampleOptions cfg task st) = Inl (js ''HTTP 429'')"
    unfolding invocation_def by (rule executeTask_throws) (simp add: exampleOptions_def)
  then show ?thesis by (simp add: failureMessage_def)
qed

subsection \<open>The discipline of markComplete\<close>











lemma appends_userMessage:
  assumes "\<And>u. P (PromptForUserInput u)" and "\<And>u r. P (UserMessageRun u r)"
  shows "appends P st (userMessage env opts st)"
  using assms
  by (simp add: userMessage_def appends_def logEvent_def addTokens_def Let_def
      split: option.splits sum.splits)

lemma appends_syncIssueStep:
  "(\<And>r. P (SyncPrdToIssue r)) \<Longrightarrow> appends P st (snd (syncIssueStep env opts st))"
  by (simp add: syncIssueStep_def appends_def logEvent_def)

lemma appends_pullRequestStep:
  "(\<And>b r. P (CreatePullRequest b r)) \<Longrightarrow> appends P st (snd (pullRequestStep env opts branch st))"
  by (simp add: pullRequestStep_def appends_def logEvent_def split: option.splits)

lemma appends_clearDeferredTask:
  "(\<And>i. P (ClearDeferredTask i)) \<Longrightarrow> appends P st (clearDeferredTask task st)"
  by (simp add: clearDeferredTask_def appends_def logEvent_def)

lemma onSuccess_appends:
  assumes "\<And>r. P (SyncPrdToIssue r)" and "\<And>b r. P (CreatePullRequest b r)"
    and "\<And>i. P (ClearDeferredTask i)"
    and "\<And>u. P (PromptForUserInput u)" and "\<And>u r. P (UserMessageRun u r)"
  shows "appends P
           (logEvent (MarkComplete (task_id task) (markComplete env (trace st) (task_id task))) st)
           (snd (onSuccess env opts task branch r st))"
proof -
  let ?m = "markComplete env (trace st) (task_id task)"
  let ?st2 = "logEvent (MarkComplete (task_id task) ?m) (addTokens r st)"
  let ?s = "syncIssueStep env opts (completeTask ?st2)"
  let ?c = "clearDeferredTask task (snd ?s)"
  let ?p = "pullRequestStep env opts branch ?c"
  let ?L = "logEvent (MarkComplete (task_id task) ?m) st"
  have t: "trace (addTokens r st) = trace st" by (simp add: addTokens_def)
  have a2: "appends P ?L ?st2"
    by (rule appends_same_trace) (simp add: logEvent_def addTokens_def)
  have "appends P ?st2 (completeTask ?st2)"
    by (rule appends_same_trace) (simp add: completeTask_def)
  with a2 have a3: "appends P ?L (completeTask ?st2)" by (rule appends_trans)
  have as: "appends P ?L (snd ?s)"
    using a3 appends_syncIssueStep [of P "completeTask ?st2" env opts] assms(1)
    by (blast intro: appends_trans)
  have ac: "appends P ?L ?c"
    using as appends_clearDeferredTask [of P "snd ?s" task] assms(3) by (blast intro: appends_trans)
  have ap: "appends P ?L (snd ?p)"
    using ac appends_pullRequestStep [of P ?c env opts branch] assms(2) by (blast intro: appends_trans)
  have au: "appends P ?L (userMessage env opts (snd ?p))"
    using ap appends_userMessage [of P "snd ?p" env opts] assms(4,5) by (blast intro: appends_trans)
  show ?thesis
  proof (cases ?m)
    case (Some e)
    with a2 show ?thesis by (simp add: onSuccess_def Let_def t)
  next
    case None
    note m = this
    show ?thesis
    proof (cases "fst ?s")
      case (Some e)
      with as m show ?thesis by (simp add: onSuccess_def Let_def t)
    next
      case None
      note s = this
      show ?thesis
      proof (cases "fst ?p")
        case (Some e)
        with ap m s show ?thesis by (simp add: onSuccess_def Let_def t)
      next
        case None
        with au m s show ?thesis by (simp add: onSuccess_def Let_def t)
      qed
    qed
  qed
qed










subsection \<open>Concrete runs\<close>

text \<open>
  C9 on the backlog of \<open>task1\<close> with an engine that always succeeds.
\<close>

theorem single_task_success_witness:
  "getNextTask (exampleEnv [task1] (Inr succeeded)) = backlogTaskSource [task1] \<and>
   \<not> isTTY (exampleEnv [task1] (Inr succeeded)) \<and> \<not> dryRun exampleOptions \<and>
   success succeeded \<and> inputTokens succeeded = 100 \<and> outputTokens succeeded = 50 \<and>
   1 \<le> maxRetries exampleOptions \<and>
   fst (runSequential (exampleEnv [task1] (Inr succeeded)) exampleOptions 2) \<and>
   result (snd (runSequential (exampleEnv [task1] (Inr succeeded)) exampleOptions 2)) =
     \<lparr>tasksCompleted = 1, tasksFailed = 0, totalInputTokens = 100, totalOutputTokens = 50\<rparr>"
proof -
  have "fst (runSequential (exampleEnv [task1] (Inr succeeded)) exampleOptions 2) \<and>
        result (snd (runSequential (exampleEnv [task1] (Inr succeeded)) exampleOptions 2)) =
          \<lparr>tasksCompleted = 1, tasksFailed = 0, totalInputTokens = 100, totalOutputTokens = 50\<rparr>"
    by (rule single_task_success [where task = task1 and r = succeeded])
       (simp_all add: exampleEnv_def exampleOptions_def succeeded_def)
  then show ?thesis by (simp add: exampleEnv_def exampleOptions_def succeeded_def)
qed

lemma exampleOptions_live:
  "\<not> dryRun exampleOptions"
  "\<not> (0 < maxIterations exampleOptions \<and> maxIterations exampleOptions \<le> i)"
  by (simp_all add: exampleOptions_def)

lemma rateLimitedEnv_classified: "isRetryableError rateLimitedEnv (js ''HTTP 429'')"
  by (simp add: rateLimitedEnv_def exampleEnv_def example_texts)

text \<open>
  C2 on a backlog of two tasks with an engine that always answers \<open>HTTP 429\<close>, three
  attempts allowed and no earlier deferral: the counter becomes 1 and the run stops.
\<close>

theorem retryable_failure_defers_or_stops_witness:
  "\<not> dryRun exampleOptions \<and>
   \<not> abortDueToRetryableFailure (initialLoopState rateLimitedEnv) \<and>
   getNextTask rateLimitedEnv (trace (drainChat rateLimitedEnv (initialLoopState rateLimitedEnv)))
     = Some task1 \<and>
   failureMessage (fst (invocation rateLimitedEnv exampleOptions claudeConfig task1
      (fetched rateLimitedEnv task1 (initialLoopState rateLimitedEnv)))) = Some (js ''HTTP 429'') \<and>
   isRetryableError rateLimitedEnv (js ''HTTP 429'') \<and>
   deferred (initialLoopState rateLimitedEnv) (task_id task1) = None \<and>
   int 1 < maxRetries exampleOptions \<and>
   fst (runLoop 1 rateLimitedEnv exampleOptions claudeConfig (initialLoopState rateLimitedEnv)) \<and>
   deferred (snd (runLoop 1 rateLimitedEnv exampleOptions claudeConfig (initialLoopState rateLimitedEnv)))
     (task_id task1) = Some 1 \<and>
   tasksFailed (result (snd (runLoop 1 rateLimitedEnv exampleOptions claudeConfig
     (initialLoopState rateLimitedEnv)))) = 1"
proof -
  let ?st = "initialLoopState rateLimitedEnv"
  let ?st' = "returnToBase exampleOptions
     (snd (runTask rateLimitedEnv exampleOptions claudeConfig task1 (fetched rateLimitedEnv task1 ?st)))"
  have h3: "\<not> abortDueToRetryableFailure ?st" by (simp add: initialLoopState_def)
  have h6: "deferred ?st (task_id task1) = None"
    by (simp add: initialLoopState_def rateLimitedEnv_def exampleEnv_def)
  then have h7: "(1::nat) = (case deferred ?st (task_id task1) of None \<Rightarrow> 1 | Some c \<Rightarrow> c + 1)"
    by simp
  have h8: "int 1 < maxRetries exampleOptions" by (simp add: exampleOptions_def)
  from retryable_failure_defers_or_stops [where cfg = claudeConfig and fuel = 0,
      OF exampleOptions_live h3 rateLimitedEnv_fetch rateLimitedEnv_outcome
        rateLimitedEnv_classified h7 refl] h8
  have c: "result ?st' = (result ?st)\<lparr>tasksFailed := tasksFailed (result ?st) + 1\<rparr> \<and>
     deferred ?st' = (deferred ?st)(task_id task1 \<mapsto> 1) \<and>
     runLoop 1 rateLimitedEnv exampleOptions claudeConfig ?st =
       (True, logEvent CleanupInputListener ?st')"
    by simp
  then have "fst (runLoop 1 rateLimitedEnv exampleOptions claudeConfig ?st) \<and>
     deferred (snd (runLoop 1 rateLimitedEnv exampleOptions claudeConfig ?st)) (task_id task1) = Some 1 \<and>
     tasksFailed (result (snd (runLoop 1 rateLimitedEnv exampleOptions claudeConfig ?st))) = 1"
    by (simp add: logEvent_def initialLoopState_def)
  with exampleOptions_live(1) h3 h6 h8 rateLimitedEnv_fetch rateLimitedEnv_outcome [of claudeConfig]
    rateLimitedEnv_classified
  show ?thesis by simp
qed


lemma runLoop_fatal:
  assumes live: "\<not> dryRun opts"
    and cap: "\<not> (0 < maxIterations opts \<and> maxIterations opts \<le> iteration st)"
    and fetch: "getNextTask env (trace (drainChat env st)) = Some task"
    and fail: "failureMessage (fst (invocation env opts cfg task (fetched env task st))) = Some e"
    and fatal: "\<not> isRetryableError env e" "isFatalError env e"
  shows "runLoop (Suc fuel) env opts cfg st =
     (True, logEvent CleanupInputListener
        (failTask (snd (invocation env opts cfg task (fetched env task st)))))"
proof -
  have "runTask env opts cfg task (fetched env task st) =
      (True, logEvent CleanupInputListener
        (failTask (snd (invocation env opts cfg task (fetched env task st)))))"
    using live fail fatal by (simp add: runTask_live afterExecute_failure onFailure_fatal)
  then show ?thesis
    using runLoop_step [OF cap fetch, of fuel cfg] by (simp add: Let_def)
qed

lemma createBranch_logged:
  assumes "branchPerTask opts" and "truthy (baseBranch opts)"
  shows "trace (snd (createBranch env opts task st)) =
           trace st @ [CreateTaskBranch task (createTaskBranch env (trace st) task)]"
  using assms by (simp add: createBranch_def logEvent_def Let_def split: sum.splits)

text \<open>
  Claim C4 fails on a fatal failure. With \<open>branchPerTask\<close> and the base branch
  \<open>main\<close>, on a backlog of two tasks with an engine that always answers
  \<open>not authenticated\<close>: the branch of the first task is created, the failure is fatal,
  and \<open>runSequential\<close> returns without a call of \<open>returnToBaseBranch\<close>.
\<close>

theorem fatal_failure_leaves_task_branch:
  "branchPerTask exampleOptions \<and> truthy (baseBranch exampleOptions) \<and>
   fst (runSequential fatalEnv exampleOptions 3) \<and>
   CreateTaskBranch task1 (Inr (js ''ralphy/login''))
     \<in> set (trace (snd (runSequential fatalEnv exampleOptions 3))) \<and>
   ReturnToBaseBranch \<notin> set (trace (snd (runSequential fatalEnv exampleOptions 3)))"
proof -
  let ?cfg = "createModelFallbackManager (engineNameLowerCase fatalEnv)"
  let ?f = "fetched fatalEnv task1 (initialLoopState fatalEnv)"
  let ?g = "?f\<lparr>iteration := iteration ?f + 1\<rparr>"
  let ?b = "snd (createBranch fatalEnv exampleOptions task1 ?g)"
  let ?x = "invocation fatalEnv exampleOptions ?cfg task1 ?f"
  let ?final = "logEvent CleanupInputListener (failTask (snd ?x))"
  have opts: "branchPerTask exampleOptions" "truthy (baseBranch exampleOptions)"
    by (simp_all add: exampleOptions_def example_texts)
  have run: "runSequential fatalEnv exampleOptions 3 = (True, ?final)"
    unfolding runSequential_def numeral_3_eq_3
    by (rule runLoop_fatal [OF exampleOptions_live fatalEnv_fetch fatalEnv_outcome fatalEnv_classified])
  have f: "trace ?f = [ChatQueue [], GetNextTask (Some task1)]"
    by (simp add: trace_fetched initialLoopState_def fatalEnv_def exampleEnv_def)
  have b: "trace ?b = trace ?f @ [CreateTaskBranch task1 (Inr (js ''ralphy/login''))]"
    using createBranch_logged [OF opts, of fatalEnv task1 ?g]
    by (simp add: fatalEnv_def exampleEnv_def task1_def js_def)
  have "appends (\<lambda>e. True) ?b (snd ?x)"
    unfolding invocation_def
    using quiet_executeTask [of "\<lambda>e. True" task1 ?b fatalEnv exampleOptions ?cfg]
    by (simp add: quiet_def)
  then have created: "CreateTaskBranch task1 (Inr (js ''ralphy/login'')) \<in> set (trace ?final)"
    using b by (auto simp: appends_def logEvent_def failTask_def)
  have "appends (\<lambda>e. e \<noteq> ReturnToBaseBranch) ?f (snd ?x)"
    using invocation_frame [of "\<lambda>e. e \<noteq> ReturnToBaseBranch" task1 ?f fatalEnv exampleOptions ?cfg]
    by simp
  then have "ReturnToBaseBranch \<notin> set (trace ?final)"
    using f by (auto simp: appends_def logEvent_def failTask_def list_all_iff)
  with created opts show ?thesis by (simp add: run)
qed

subsection \<open>Failures that reach the catch clause\<close>

lemma tasksFailed_syncIssueStep:
  "tasksFailed (result (snd (syncIssueStep env opts st))) = tasksFailed (result st)"
  by (simp add: syncIssueStep_def logEvent_def)

lemma tasksFailed_pullRequestStep:
  "tasksFailed (result (snd (pullRequestStep env opts branch st))) = tasksFailed (result st)"
  by (simp add: pullRequestStep_def logEvent_def split: option.splits)

lemma tasksFailed_clearDeferredTask:
  "tasksFailed (result (clearDeferredTask task st)) = tasksFailed (result st)"
  by (simp add: clearDeferredTask_def logEvent_def)

lemma tasksFailed_userMessage:
  "tasksFailed (result (userMessage env opts st)) = tasksFailed (result st)"
  by (simp add: userMessage_def logEvent_def addTokens_def Let_def split: option.splits sum.splits)

lemma tasksFailed_onSuccess:
  "tasksFailed (result (snd (onSuccess env opts task branch r st))) = tasksFailed (result st)"
proof -
  let ?m = "markComplete env (trace st) (task_id task)"
  let ?st2 = "logEvent (MarkComplete (task_id task) ?m) (addTokens r st)"
  let ?s = "syncIssueStep env opts (completeTask ?st2)"
  let ?c = "clearDeferredTask task (snd ?s)"
  let ?p = "pullRequestStep env opts branch ?c"
  have t: "trace (addTokens r st) = trace st" by (simp add: addTokens_def)
  have f2: "tasksFailed (result ?st2) = tasksFailed (result st)"
    by (simp add: logEvent_def addTokens_def)
  have fs: "tasksFailed (result (snd ?s)) = tasksFailed (result st)"
    by (simp add: tasksFailed_syncIssueStep completeTask_def logEvent_def addTokens_def)
  have fp: "tasksFailed (result (snd ?p)) = tasksFailed (result st)"
    using fs by (simp add: tasksFailed_pullRequestStep tasksFailed_clearDeferredTask)
  have fu: "tasksFailed (result (userMessage env opts (snd ?p))) = tasksFailed (result st)"
    using fp by (simp add: tasksFailed_userMessage)
  show ?thesis
  proof (cases ?m)
    case (Some e)
    with f2 show ?thesis by (simp add: onSuccess_def Let_def t)
  next
    case None
    note m = this
    show ?thesis
    proof (cases "fst ?s")
      case (Some e)
      with fs m show ?thesis by (simp add: onSuccess_def Let_def t)
    next
      case None
      note s = this
      show ?thesis
      proof (cases "fst ?p")
        case (Some e)
        with fp m s show ?thesis by (simp add: onSuccess_def Let_def t)
      next
        case None
        with fu m s show ?thesis by (simp add: onSuccess_def Let_def t)
      qed
    qed
  qed
qed

lemma iterationFailure_engine:
  "failureMessage (fst (invocation env opts cfg task st)) = Some e \<Longrightarrow>
   iterationFailure env opts cfg task st = Some e"
  by (auto simp: failureMessage_def iterationFailure_def Let_def split: sum.splits if_splits)

lemma runTask_failure_entry:
  assumes live: "\<not> dryRun opts"
    and err: "iterationFailure env opts cfg task st = Some e"
  shows "\<exists>pre. runTask env opts cfg task st = onFailure env opts task e pre \<and>
           appends (\<lambda>e. \<not> isGetNextTask e) st pre \<and>
           tasksFailed (result pre) = tasksFailed (result st)"
proof -
  let ?P = "\<lambda>e. \<not> isGetNextTask e"
  let ?b = "fst (createBranch env opts task (st\<lparr>iteration := iteration st + 1\<rparr>))"
  let ?x = "invocation env opts cfg task st"
  have rt: "runTask env opts cfg task st = afterExecute env opts cfg task ?b ?x"
    using live by (rule runTask_live)
  have fx: "appends ?P st (snd ?x)" "result (snd ?x) = result st"
    using invocation_frame [of ?P task st env opts cfg] by simp_all
  show ?thesis
  proof (cases "failureMessage (fst ?x)")
    case (Some e')
    then have "iterationFailure env opts cfg task st = Some e'" by (rule iterationFailure_engine)
    with err have "e' = e" by simp
    with Some have "runTask env opts cfg task st = onFailure env opts task e (snd ?x)"
      by (simp add: rt afterExecute_failure)
    with fx show ?thesis by auto
  next
    case None
    then obtain r where r: "fst ?x = Inr r" "success r"
      by (auto simp: failureMessage_def split: sum.splits if_splits)
    let ?u = "modelOrOverride env opts cfg (snd ?x)"
    let ?rec = "managerRecordSuccess cfg (fst ?u) (snd ?u)"
    let ?ok = "onSuccess env opts task ?b r ?rec"
    let ?L = "logEvent (MarkComplete (task_id task) (markComplete env (trace ?rec) (task_id task))) ?rec"
    have thrown: "fst ?ok = Some e"
      using err r by (simp add: iterationFailure_def Let_def)
    have run: "runTask env opts cfg task st = onFailure env opts task e (snd ?ok)"
      using r thrown by (simp add: rt afterExecute_def Let_def)
    have q: "quiet ?P (snd ?x) ?rec"
      using quiet_modelOrOverride [of ?P "snd ?x" env opts cfg]
        quiet_managerRecordSuccess [of ?P "snd ?u" cfg "fst ?u"]
      by (simp add: quiet_trans)
    have a1: "appends ?P st ?rec"
      using fx(1) q by (auto simp: quiet_def intro: appends_trans)
    have a2: "appends ?P ?rec ?L" by (rule appends_logEvent) simp
    have a3: "appends ?P ?L (snd ?ok)" by (rule onSuccess_appends) simp_all
    have app: "appends ?P st (snd ?ok)"
      using a1 a2 a3 by (blast intro: appends_trans)
    have "tasksFailed (result (snd ?ok)) = tasksFailed (result st)"
      using q fx(2) by (simp add: tasksFailed_onSuccess quiet_def)
    with run app show ?thesis by blast
  qed
qed

text \<open>
  Claim C3, amended. Take any state at the head of the loop from which a task is fetched,
  in a run that is not a dry run. When the failure handling of the iteration is entered
  with a message classified as fatal (not retryable, and fatal), be it the failure of the
  engine invocation or an error thrown by a later step of the success branch,
  \<open>runSequential\<close> returns in this very iteration, whatever fuel is left: \<open>tasksFailed\<close>
  has grown by exactly one and no further task is fetched. When the fatal failure is that
  of the engine invocation, the rest of the result is as before and the task is not
  marked complete.
\<close>

theorem fatal_error_aborts_run:
  assumes live: "\<not> dryRun opts"
    and cap: "\<not> (0 < maxIterations opts \<and> maxIterations opts \<le> iteration st)"
    and fetch: "getNextTask env (trace (drainChat env st)) = Some task"
    and err: "iterationFailure env opts cfg task (fetched env task st) = Some e"
    and fatal: "\<not> isRetryableError env e" "isFatalError env e"
  shows "fst (runLoop (Suc fuel) env opts cfg st) \<and>
         tasksFailed (result (snd (runLoop (Suc fuel) env opts cfg st)))
           = tasksFailed (result st) + 1 \<and>
         appends (\<lambda>e. \<not> isGetNextTask e) (fetched env task st)
           (snd (runLoop (Suc fuel) env opts cfg st)) \<and>
         (failureMessage (fst (invocation env opts cfg task (fetched env task st))) = Some e \<longrightarrow>
            result (snd (runLoop (Suc fuel) env opts cfg st))
              = (result st)\<lparr>tasksFailed := tasksFailed (result st) + 1\<rparr> \<and>
            appends (\<lambda>e. \<not> isGetNextTask e \<and> \<not> isMarkComplete e) (fetched env task st)
              (snd (runLoop (Suc fuel) env opts cfg st)))"
proof (intro conjI impI)
  let ?P = "\<lambda>e. \<not> isGetNextTask e"
  let ?f = "fetched env task st"
  obtain pre where pre: "runTask env opts cfg task ?f = onFailure env opts task e pre"
    "appends ?P ?f pre" "tasksFailed (result pre) = tasksFailed (result ?f)"
    using runTask_failure_entry [OF live err] by blast
  let ?final = "logEvent CleanupInputListener (failTask pre)"
  have "runTask env opts cfg task ?f = (True, ?final)"
    using pre(1) fatal by (simp add: onFailure_fatal)
  then have loop: "runLoop (Suc fuel) env opts cfg st = (True, ?final)"
    using runLoop_step [OF cap fetch, of fuel cfg] by (simp add: Let_def)
  show "fst (runLoop (Suc fuel) env opts cfg st)" using loop by simp
  show "tasksFailed (result (snd (runLoop (Suc fuel) env opts cfg st))) = tasksFailed (result st) + 1"
    using loop pre(3) fields_fetched [of env task st] by (simp add: logEvent_def failTask_def)
  have "appends ?P pre ?final"
    by (simp add: appends_def logEvent_def failTask_def)
  with pre(2) show "appends ?P ?f (snd (runLoop (Suc fuel) env opts cfg st))"
    using loop by (auto intro: appends_trans)
next
  let ?Q = "\<lambda>e. \<not> isGetNextTask e \<and> \<not> isMarkComplete e"
  let ?f = "fetched env task st"
  let ?x = "invocation env opts cfg task ?f"
  let ?final = "logEvent CleanupInputListener (failTask (snd ?x))"
  assume fail: "failureMessage (fst ?x) = Some e"
  have loop: "runLoop (Suc fuel) env opts cfg st = (True, ?final)"
    using live cap fetch fail fatal by (rule runLoop_fatal)
  have frame: "appends ?Q ?f (snd ?x)" "result (snd ?x) = result st"
    using invocation_frame [of ?Q task ?f env opts cfg] fields_fetched [of env task st] by simp_all
  show "result (snd (runLoop (Suc fuel) env opts cfg st))
      = (result st)\<lparr>tasksFailed := tasksFailed (result st) + 1\<rparr>"
    using loop frame(2) by (simp add: logEvent_def failTask_def)
  have "appends ?Q (snd ?x) ?final"
    by (simp add: appends_def logEvent_def failTask_def)
  with frame(1) show "appends ?Q ?f (snd (runLoop (Suc fuel) env opts cfg st))"
    using loop by (auto intro: appends_trans)
qed

subsection \<open>Runs in which a step after the success throws\<close>


lemma prFails_run:
  "(case runSequential prFailsEnv prOptions 3 of
      (fin, s) \<Rightarrow> (fin, filter isMarkComplete (trace s), result s)) =
   (True, [MarkComplete (js ''1'') None],
    \<lparr>tasksCompleted = 1, tasksFailed = 1, totalInputTokens = 100, totalOutputTokens = 50\<rparr>)"
  by code_simp

lemma prFails_failure:
  "iterationFailure prFailsEnv prOptions claudeConfig task1
     (fetched prFailsEnv task1 (initialLoopState prFailsEnv)) = Some (js ''not authenticated'')"
  by code_simp

lemma prFails_fetch:
  "getNextTask prFailsEnv (trace (drainChat prFailsEnv (initialLoopState prFailsEnv))) = Some task1"
  by (simp add: prFailsEnv_def example_defs drainChat_def logEvent_def backlogTaskSource_def)

lemma prFails_classified:
  "\<not> isRetryableError prFailsEnv (js ''not authenticated'')"
  "isFatalError prFailsEnv (js ''not authenticated'')"
  by (simp_all add: prFailsEnv_def exampleEnv_def example_texts)

lemma prOptions_live:
  "\<not> dryRun prOptions"
  "\<not> (0 < maxIterations prOptions \<and> maxIterations prOptions \<le> i)"
  by (simp_all add: prOptions_def exampleOptions_def)


text \<open>
  Claim C3 as stated fails. The engine succeeds on the first task, the task is marked
  complete, and then the creation of the pull request throws \<open>not authenticated\<close>: the
  fatal branch of the \<open>catch\<close> clause aborts the run with the task marked and counted
  both as completed and as failed.
\<close>

theorem fatal_error_after_markComplete:
  "\<not> isRetryableError prFailsEnv (js ''not authenticated'') \<and>
   isFatalError prFailsEnv (js ''not authenticated'') \<and>
   iterationFailure prFailsEnv prOptions claudeConfig task1
     (fetched prFailsEnv task1 (initialLoopState prFailsEnv)) = Some (js ''not authenticated'') \<and>
   fst (runSequential prFailsEnv prOptions 3) \<and>
   filter isMarkComplete (trace (snd (runSequential prFailsEnv prOptions 3))) =
     [MarkComplete (task_id task1) None] \<and>
   result (snd (runSequential prFailsEnv prOptions 3)) =
     \<lparr>tasksCompleted = 1, tasksFailed = 1, totalInputTokens = 100, totalOutputTokens = 50\<rparr>"
  using prFails_run prFails_failure prFails_classified
  by (cases "runSequential prFailsEnv prOptions 3") (simp add: task1_def)

text \<open>
  The amended C3 on two runs: an engine that always answers \<open>not authenticated\<close>, and
  a pull request that cannot be created after a success.
\<close>

theorem fatal_error_aborts_run_witness:
  "\<not> dryRun exampleOptions \<and>
   getNextTask fatalEnv (trace (drainChat fatalEnv (initialLoopState fatalEnv))) = Some task1 \<and>
   iterationFailure fatalEnv exampleOptions claudeConfig task1
      (fetched fatalEnv task1 (initialLoopState fatalEnv)) = Some (js ''not authenticated'') \<and>
   failureMessage (fst (invocation fatalEnv exampleOptions claudeConfig task1
      (fetched fatalEnv task1 (initialLoopState fatalEnv)))) = Some (js ''not authenticated'') \<and>
   \<not> isRetryableError fatalEnv (js ''not authenticated'') \<and>
   isFatalError fatalEnv (js ''not authenticated'') \<and>
   fst (runLoop 1 fatalEnv exampleOptions claudeConfig (initialLoopState fatalEnv)) \<and>
   result (snd (runLoop 1 fatalEnv exampleOptions claudeConfig (initialLoopState fatalEnv))) =
     \<lparr>tasksCompleted = 0, tasksFailed = 1, totalInputTokens = 0, totalOutputTokens = 0\<rparr> \<and>
   \<not> dryRun prOptions \<and>
   getNextTask prFailsEnv (trace (drainChat prFailsEnv (initialLoopState prFailsEnv))) = Some task1 \<and>
   iterationFailure prFailsEnv prOptions claudeConfig task1
     (fetched prFailsEnv task1 (initialLoopState prFailsEnv)) = Some (js ''not authenticated'') \<and>
   \<not> isRetryableError prFailsEnv (js ''not authenticated'') \<and>
   isFatalError prFailsEnv (js ''not authenticated'') \<and>
   fst (runLoop 1 prFailsEnv prOptions claudeConfig (initialLoopState prFailsEnv)) \<and>
   tasksFailed (result (snd (runLoop 1 prFailsEnv prOptions claudeConfig (initialLoopState prFailsEnv)))) = 1"
proof -
  note out = fatalEnv_outcome [of claudeConfig task1 "fetched fatalEnv task1 (initialLoopState fatalEnv)"]
  note err = iterationFailure_engine [OF out]
  from fatal_error_aborts_run [where cfg = claudeConfig and fuel = 0,
      OF exampleOptions_live fatalEnv_fetch err fatalEnv_classified] out
  have a: "fst (runLoop 1 fatalEnv exampleOptions claudeConfig (initialLoopState fatalEnv)) \<and>
    result (snd (runLoop 1 fatalEnv exampleOptions claudeConfig (initialLoopState fatalEnv))) =
     \<lparr>tasksCompleted = 0, tasksFailed = 1, totalInputTokens = 0, totalOutputTokens = 0\<rparr>"
    by (simp add: initialLoopState_def)
  from fatal_error_aborts_run [where cfg = claudeConfig and fuel = 0,
      OF prOptions_live prFails_fetch prFails_failure prFails_classified]
  have b: "fst (runLoop 1 prFailsEnv prOptions claudeConfig (initialLoopState prFailsEnv)) \<and>
    tasksFailed (result (snd (runLoop 1 prFailsEnv prOptions claudeConfig (initialLoopState prFailsEnv)))) = 1"
    by (simp add: initialLoopState_def)
  from a b exampleOptions_live(1) fatalEnv_fetch err out fatalEnv_classified prOptions_live(1)
    prFails_fetch prFails_failure prFails_classified
  show ?thesis by simp
qed

end
